theory Spec2Isabelle
  imports Complex_Main "HOL-Library.Word" "HOL-Library.List_Lexorder" "HOL-Library.Extended_Nat"
begin

section \<open>Values of the embedding\<close>

text \<open>
  A JavaScript string is a sequence of UTF-16 code units. The repository's strings hold
  CJK characters (the category suffix U+7C7B, the labels of the formatter), which are one
  code unit each, so a string is a list of 16-bit words. The default \<open>Array.prototype.sort\<close>
  compares strings code unit by code unit; that is the lexicographic order on these lists.
\<close>

type_synonym jsstring = "16 word list"

text \<open>ASCII literals of the source, written as Isabelle strings.\<close>

definition js :: "string \<Rightarrow> jsstring" where
  "js s = map of_char s"

text \<open>
  A value handed to \<open>normalizeType\<close> or compared with \<open>!==\<close> against a string is either a
  string or something else (a number, null, undefined, an object): the code never
  distinguishes the values that are not strings.
\<close>

datatype jsval = JString jsstring | JOther

text \<open>
  A JavaScript number. Arithmetic on finite numbers is modelled exactly, over the reals:
  the rounding error of IEEE doubles is not part of the model. The three values that are
  not finite are kept, because \<open>Number(target)\<close>, \<open>Number(topK)\<close> and the thresholds of
  the policy can be any of them.
\<close>

datatype jsnum = Num real | NaN | PosInf | NegInf

fun isFinite :: "jsnum \<Rightarrow> bool" where
  "isFinite (Num x) = True"
| "isFinite NaN = False"
| "isFinite PosInf = False"
| "isFinite NegInf = False"

text \<open>\<open>x <= n\<close> for a finite \<open>x\<close>: every comparison with NaN is false.\<close>

fun le_num :: "real \<Rightarrow> jsnum \<Rightarrow> bool" where
  "le_num x (Num y) = (x \<le> y)"
| "le_num x NaN = False"
| "le_num x PosInf = True"
| "le_num x NegInf = False"

text \<open>\<open>x > n\<close> for a finite \<open>x\<close>.\<close>

fun gt_num :: "real \<Rightarrow> jsnum \<Rightarrow> bool" where
  "gt_num x (Num y) = (x > y)"
| "gt_num x NaN = False"
| "gt_num x PosInf = False"
| "gt_num x NegInf = True"

text \<open>\<open>n - x\<close> for a finite \<open>x\<close>.\<close>

fun sub_num :: "jsnum \<Rightarrow> real \<Rightarrow> jsnum" where
  "sub_num (Num y) x = Num (y - x)"
| "sub_num NaN x = NaN"
| "sub_num PosInf x = PosInf"
| "sub_num NegInf x = NegInf"

section \<open>normalize.js\<close>

text \<open>
  \<open>String.prototype.trim\<close> removes the code units of WhiteSpace and LineTerminator from
  both ends.
\<close>

definition isWhiteSpace :: "16 word \<Rightarrow> bool" where
  "isWhiteSpace c \<longleftrightarrow>
     c \<in> {0x09, 0x0A, 0x0B, 0x0C, 0x0D, 0x20, 0xA0, 0x1680, 0x2028, 0x2029,
          0x202F, 0x205F, 0x3000, 0xFEFF}
     \<or> (0x2000 \<le> c \<and> c \<le> 0x200A)"

definition trim :: "jsstring \<Rightarrow> jsstring" where
  "trim s = rev (dropWhile isWhiteSpace (rev (dropWhile isWhiteSpace s)))"

text \<open>
  The character class \<open>[ABCD]\<close> under the flag \<open>i\<close>: the four letters in either case.
\<close>

definition isTypeLetter :: "16 word \<Rightarrow> bool" where
  "isTypeLetter c \<longleftrightarrow> c \<in> {0x41, 0x42, 0x43, 0x44, 0x61, 0x62, 0x63, 0x64}"

text \<open>\<open>toUpperCase\<close> on the one letter the group captured.\<close>

definition toUpperCase :: "16 word \<Rightarrow> 16 word" where
  "toUpperCase c = (if 0x61 \<le> c \<and> c \<le> 0x7A then c - 0x20 else c)"

text \<open>The suffix marker of the regular expression, U+7C7B.\<close>

definition lei :: "16 word" where
  "lei = 0x7C7B"

text \<open>
  \<open>normalizeType\<close>: a value that is not a string gives null; otherwise the trimmed string
  is matched against the regular expression (one of A, B, C, D in either case, then optionally U+7C7B, anchored at both ends) and the captured letter is returned in upper
  case. null is \<open>None\<close>.
\<close>

definition normalizeType :: "jsval \<Rightarrow> jsstring option" where
  "normalizeType t =
     (case t of
        JOther \<Rightarrow> None
      | JString s \<Rightarrow>
          (case trim s of
             [c] \<Rightarrow> if isTypeLetter c then Some [toUpperCase c] else None
           | [c, d] \<Rightarrow> if isTypeLetter c \<and> d = lei then Some [toUpperCase c] else None
           | _ \<Rightarrow> None))"

section \<open>bisect.js\<close>

text \<open>An item of a group, as \<open>bestTopKCombos\<close> builds it.\<close>

record item =
  area :: real
  type :: jsstring
  srcFile :: jsstring
  community :: jsstring
  buildingNo :: jsstring
  roomNo :: jsstring
  doorNo :: jsstring

text \<open>
  The loop of \<open>bisectRightByArea\<close>, with \<open>lo\<close> and \<open>hi\<close> as its state. The shift
  \<open>(lo + hi) >> 1\<close> is a halving: \<open>lo + hi\<close> stays below \<open>2^31\<close> for every array a
  JavaScript engine can hold.
\<close>

function bisect_loop :: "item list \<Rightarrow> jsnum \<Rightarrow> nat \<Rightarrow> nat \<Rightarrow> nat" where
  "bisect_loop arr maxArea lo hi =
     (if lo < hi then
        (let mid = (lo + hi) div 2 in
         if le_num (area (arr ! mid)) maxArea
         then bisect_loop arr maxArea (mid + 1) hi
         else bisect_loop arr maxArea lo mid)
      else lo)"
  by pat_completeness auto
termination
  by (relation "measure (\<lambda>(arr, maxArea, lo, hi). hi - lo)") auto

declare bisect_loop.simps [simp del]

definition bisectRightByArea :: "item list \<Rightarrow> jsnum \<Rightarrow> nat" where
  "bisectRightByArea arr maxArea = bisect_loop arr maxArea 0 (length arr)"

definition pickBestUnderOrEqual :: "item list \<Rightarrow> jsnum \<Rightarrow> item option" where
  "pickBestUnderOrEqual arr maxArea =
     (let idx = int (bisectRightByArea arr maxArea) - 1
      in if idx \<ge> 0 then Some (arr ! nat idx) else None)"

section \<open>topk.js\<close>

text \<open>
  A candidate \<open>{ sum, picked }\<close>. Its fields are \<open>sum_c\<close> and \<open>picked_c\<close> here
  (\<open>sum\<close> is a constant of HOL, \<open>picked\<close> the name of the source's parameters).
\<close>

record cand =
  sum_c :: real
  picked_c :: "item list"

text \<open>\<open>Array.prototype.join\<close> on an array of strings.\<close>

fun join_js :: "jsstring \<Rightarrow> jsstring list \<Rightarrow> jsstring" where
  "join_js sep [] = []"
| "join_js sep [x] = x"
| "join_js sep (x # y # ys) = x @ sep @ join_js sep (y # ys)"

text \<open>
  \<open>makeKey\<close>. The template literal converts \<open>x.area\<close> with Number::toString, which has no
  counterpart on the reals: the conversion is the parameter \<open>numToString\<close>, and every
  property below holds for each conversion. \<open>sort()\<close> without a comparator orders the
  strings by code units.
\<close>

definition makeKey :: "(real \<Rightarrow> jsstring) \<Rightarrow> item list \<Rightarrow> jsstring" where
  "makeKey numToString picked =
     join_js (js ''|'')
       (sort (map (\<lambda>x. numToString (area x) @ js ''-'' @ type x @ js ''-'' @ srcFile x) picked))"

text \<open>
  The state \<open>pushTopK\<close> mutates: the array \<open>topList\<close> and the set \<open>seenKeys\<close>.
\<close>

type_synonym collector = "cand list \<times> jsstring set"

text \<open>
  \<open>pushTopK\<close>, returning the new state. \<open>topList.sort((a, b) => b.sum - a.sum)\<close> is a
  stable sort by descending \<open>sum\<close>, which is \<open>sort_key\<close> on the negated sum. \<open>topK\<close> is a
  non-negative integer or Infinity (what \<open>bestTopKCombos\<close> passes), an \<open>enat\<close>.
\<close>

definition pushTopK ::
  "(real \<Rightarrow> jsstring) \<Rightarrow> collector \<Rightarrow> cand \<Rightarrow> enat \<Rightarrow> collector" where
  "pushTopK numToString st candidate topK =
     (let topList = fst st; seenKeys = snd st;
          key = makeKey numToString (picked_c candidate)
      in if key \<in> seenKeys then st
         else
           (let seenKeys1 = insert key seenKeys;
                topList1 = sort_key (\<lambda>a. - sum_c a) (topList @ [candidate])
            in if enat (length topList1) > topK
               then (let removed = last topList1;
                         removedKey = makeKey numToString (picked_c removed)
                     in (butlast topList1, seenKeys1 - {removedKey}))
               else (topList1, seenKeys1)))"


section \<open>solver.js: the items and the groups\<close>

text \<open>
  One element of \<open>candidates\<close>, as the first loop of \<open>bestTopKCombos\<close> reads it:
  \<^item> an array of at least three elements, with \<open>Number(it[0])\<close>, \<open>it[1]\<close>, \<open>it[2]\<close>;
  \<^item> an object, with \<open>Number(it.area)\<close>, \<open>it.type\<close>, \<open>it.srcFile\<close> and the four
    descriptive fields \<open>community\<close>, \<open>buildingNo\<close>, \<open>roomNo\<close>, \<open>doorNo\<close> (strings, as
    \<open>solveTopK\<close> builds them; the empty string also stands for a missing field, which
    the formatter treats alike);
  \<^item> anything else, also a shorter array.
\<close>

datatype rawcand =
    RawArray jsnum jsval jsval
  | RawObject jsnum jsval jsval jsstring jsstring jsstring jsstring
  | RawOther

text \<open>
  The three checks of the loop body, in the source's order; \<open>None\<close> is \<open>continue\<close>.
\<close>

definition checkItem ::
  "jsstring \<Rightarrow> jsstring \<Rightarrow> jsnum \<Rightarrow> jsval \<Rightarrow> jsval \<Rightarrow> jsstring \<Rightarrow> jsstring \<Rightarrow> jsstring
     \<Rightarrow> jsstring \<Rightarrow> item option" where
  "checkItem fileAName fileBName area0 type0 srcFile0 community0 buildingNo0 roomNo0 doorNo0 =
     (case area0 of
        Num a \<Rightarrow>
          if a \<le> 0 then None
          else
            (case normalizeType type0 of
               None \<Rightarrow> None
             | Some t \<Rightarrow>
                 if t \<notin> set [js ''A'', js ''B'', js ''C''] then None
                 else
                   (case srcFile0 of
                      JOther \<Rightarrow> None
                    | JString f \<Rightarrow>
                        if f \<noteq> fileAName \<and> f \<noteq> fileBName then None
                        else Some \<lparr>area = a, type = t, srcFile = f, community = community0,
                                   buildingNo = buildingNo0, roomNo = roomNo0, doorNo = doorNo0\<rparr>))
      | _ \<Rightarrow> None)"

text \<open>The loop body of the current version: arrays and objects are accepted.\<close>

fun toItem :: "jsstring \<Rightarrow> jsstring \<Rightarrow> rawcand \<Rightarrow> item option" where
  "toItem fileAName fileBName (RawArray a t f) = checkItem fileAName fileBName a t f [] [] [] []"
| "toItem fileAName fileBName (RawObject a t f c b r d) = checkItem fileAName fileBName a t f c b r d"
| "toItem fileAName fileBName RawOther = None"

text \<open>The loop body of the earlier version: only arrays are accepted.\<close>

fun toItem_v1 :: "jsstring \<Rightarrow> jsstring \<Rightarrow> rawcand \<Rightarrow> item option" where
  "toItem_v1 fileAName fileBName (RawArray a t f) = checkItem fileAName fileBName a t f [] [] [] []"
| "toItem_v1 fileAName fileBName (RawObject a t f c b r d) = None"
| "toItem_v1 fileAName fileBName RawOther = None"

text \<open>
  \<open>byType[t]\<close> after the grouping and the stable sort by ascending area
  (\<open>sort((p, q) => p.area - q.area)\<close>).
\<close>

definition byTypeSorted :: "item list \<Rightarrow> jsstring \<Rightarrow> item list" where
  "byTypeSorted items t = sort_key area (filter (\<lambda>x. type x = t) items)"

text \<open>The current version then drops the items larger than the target.\<close>

definition byTypeFitting :: "jsnum \<Rightarrow> item list \<Rightarrow> jsstring \<Rightarrow> item list" where
  "byTypeFitting targetNum items t = filter (\<lambda>x. le_num (area x) targetNum) (byTypeSorted items t)"

text \<open>
  \<open>topK = Math.max(1, Math.floor(Number(topK) || 1))\<close>, on the value of
  \<open>Number(topK)\<close>: 0 and NaN are falsy.
\<close>

fun normTopK :: "jsnum \<Rightarrow> enat" where
  "normTopK (Num k) = (if k = 0 then 1 else enat (nat (max 1 \<lfloor>k\<rfloor>)))"
| "normTopK NaN = 1"
| "normTopK PosInf = \<infinity>"
| "normTopK NegInf = 1"

section \<open>solver.js: the filter in front of the collector\<close>

text \<open>
  The variables the inner functions of \<open>bestTopKCombos\<close> close over.
\<close>

record env =
  numToString :: "real \<Rightarrow> jsstring"
  targetNum :: jsnum
  fileAName :: jsstring
  fileBName :: jsstring
  topK :: enat
  disallowDominant :: bool
  dominantMoreThan :: jsnum
  othersLessThan :: jsnum

definition hasAtLeastOneFromB :: "env \<Rightarrow> item list \<Rightarrow> bool" where
  "hasAtLeastOneFromB e picked = list_ex (\<lambda>x. srcFile x = fileBName e) picked"

text \<open>The \<open>reduce\<close> that counts the large items of file A.\<close>

definition largeQCount :: "env \<Rightarrow> item list \<Rightarrow> nat" where
  "largeQCount e picked =
     foldl (\<lambda>acc x. acc + (if srcFile x = fileAName e \<and> area x > 100 then 1 else 0)) 0 picked"

text \<open>
  The anti-dominance block: True where the block returns and discards the combination.
\<close>

definition violatesDominant :: "env \<Rightarrow> item list \<Rightarrow> bool" where
  "violatesDominant e picked =
     (if disallowDominant e \<and> isFinite (dominantMoreThan e) \<and> isFinite (othersLessThan e) then
        (case (dominantMoreThan e, othersLessThan e) of
           (Num d, Num l) \<Rightarrow>
             (let areas = map area picked;
                  dominantCount = length (filter (\<lambda>a. a > d) areas)
              in if dominantCount = 1 then
                   (let others = filter (\<lambda>a. a \<le> d) areas;
                        allOthersSmall = list_all (\<lambda>a. a < l) others
                    in allOthersSmall)
                 else False)
         | _ \<Rightarrow> False)
      else False)"

text \<open>\<open>tryCollect\<close> of the current version, as a function of the collector's state.\<close>

definition tryCollect :: "env \<Rightarrow> item list \<Rightarrow> real \<Rightarrow> collector \<Rightarrow> collector" where
  "tryCollect e picked sum0 st =
     (if gt_num sum0 (targetNum e) then st
      else if \<not> hasAtLeastOneFromB e picked then st
      else if largeQCount e picked \<ge> 2 then st
      else if violatesDominant e picked then st
      else pushTopK (numToString e) st \<lparr>sum_c = sum0, picked_c = picked\<rparr> (topK e))"

text \<open>\<open>tryCollect\<close> of the earlier version: no rule on the large items of file A.\<close>

definition tryCollect_v1 :: "env \<Rightarrow> item list \<Rightarrow> real \<Rightarrow> collector \<Rightarrow> collector" where
  "tryCollect_v1 e picked sum0 st =
     (if gt_num sum0 (targetNum e) then st
      else if \<not> hasAtLeastOneFromB e picked then st
      else if violatesDominant e picked then st
      else pushTopK (numToString e) st \<lparr>sum_c = sum0, picked_c = picked\<rparr> (topK e))"

section \<open>solver.js: the enumeration of the current version\<close>

text \<open>
  The only statement of the enumeration that can throw is the read
  \<open>topList[topList.length - 1].sum\<close>: on an empty \<open>topList\<close> the element is undefined and
  the property access raises a TypeError.
\<close>

datatype jserror = TypeError

text \<open>
  \<open>maxCarea\<close> and \<open>maxZarea\<close>: the area of the last element of the closing group, or
  \<open>-Infinity\<close> for an empty group.
\<close>

definition maxAreaOf :: "item list \<Rightarrow> jsnum" where
  "maxAreaOf Z = (if Z = [] then NegInf else Num (area (last Z)))"

text \<open>\<open>partial + maxArea <= minKeep\<close>, with \<open>partial\<close> and \<open>minKeep\<close> finite.\<close>

fun addle_num :: "real \<Rightarrow> jsnum \<Rightarrow> real \<Rightarrow> bool" where
  "addle_num partial (Num m) minKeep = (partial + m \<le> minKeep)"
| "addle_num partial NaN minKeep = False"
| "addle_num partial PosInf minKeep = False"
| "addle_num partial NegInf minKeep = True"

text \<open>
  The pruning test in front of the closing lookup: \<open>Inr True\<close> is \<open>break\<close>, \<open>Inr False\<close>
  goes on to the lookup.
\<close>

definition pruneCheck :: "env \<Rightarrow> jsnum \<Rightarrow> real \<Rightarrow> collector \<Rightarrow> jserror + bool" where
  "pruneCheck e maxArea partial st =
     (let topList = fst st
      in if enat (length topList) \<ge> topK e then
           (case topList of
              [] \<Rightarrow> Inl TypeError
            | _ \<Rightarrow> (let minKeep = sum_c (last topList)
                    in Inr (addle_num partial maxArea minKeep)))
         else Inr False)"

text \<open>The closing lookup of the 3-item search and the call of \<open>tryCollect\<close>.\<close>

definition collect3 :: "env \<Rightarrow> item list \<Rightarrow> item \<Rightarrow> item \<Rightarrow> real \<Rightarrow> collector \<Rightarrow> collector" where
  "collect3 e C a b partial st =
     (case pickBestUnderOrEqual C (sub_num (targetNum e) partial) of
        None \<Rightarrow> st
      | Some c \<Rightarrow> tryCollect e [a, b, c] (partial + area c) st)"

text \<open>
  The inner loop of the 3-item search, \<open>for (ib = B.length - 1; ib >= 0; ib--)\<close>: the
  list argument holds the elements still to visit, in visiting order, so the loop starts
  on \<open>rev B\<close>.
\<close>

fun loop3_b :: "env \<Rightarrow> item list \<Rightarrow> item \<Rightarrow> item list \<Rightarrow> collector \<Rightarrow> jserror + collector" where
  "loop3_b e C a [] st = Inr st"
| "loop3_b e C a (b # bs) st =
     (let partial = area a + area b
      in if gt_num partial (targetNum e) then loop3_b e C a bs st
         else
           (case pruneCheck e (maxAreaOf C) partial st of
              Inl err \<Rightarrow> Inl err
            | Inr True \<Rightarrow> Inr st
            | Inr False \<Rightarrow> loop3_b e C a bs (collect3 e C a b partial st)))"

text \<open>The outer loop, \<open>for (ia = A.length - 1; ia >= 0; ia--)\<close>, started on \<open>rev A\<close>.\<close>

fun loop3_a :: "env \<Rightarrow> item list \<Rightarrow> item list \<Rightarrow> item list \<Rightarrow> collector \<Rightarrow> jserror + collector" where
  "loop3_a e B C [] st = Inr st"
| "loop3_a e B C (a # as) st =
     (case loop3_b e C a (rev B) st of
        Inl err \<Rightarrow> Inl err
      | Inr st1 \<Rightarrow> loop3_a e B C as st1)"

text \<open>The closing lookup of the 4-item search and the call of \<open>tryCollect\<close>.\<close>

definition collect4 ::
  "env \<Rightarrow> item list \<Rightarrow> item \<Rightarrow> item \<Rightarrow> item \<Rightarrow> real \<Rightarrow> collector \<Rightarrow> collector" where
  "collect4 e Z xi xj y partial st =
     (case pickBestUnderOrEqual Z (sub_num (targetNum e) partial) of
        None \<Rightarrow> st
      | Some z \<Rightarrow> tryCollect e [xi, xj, y, z] (partial + area z) st)"

text \<open>The loop over \<open>iy\<close> of \<open>enumFour\<close>, started on \<open>rev Y\<close>.\<close>

fun enumFour_y ::
  "env \<Rightarrow> item list \<Rightarrow> item \<Rightarrow> item \<Rightarrow> real \<Rightarrow> item list \<Rightarrow> collector \<Rightarrow> jserror + collector" where
  "enumFour_y e Z xi xj sumXX [] st = Inr st"
| "enumFour_y e Z xi xj sumXX (y # ys) st =
     (let partial = sumXX + area y
      in if gt_num partial (targetNum e) then enumFour_y e Z xi xj sumXX ys st
         else
           (case pruneCheck e (maxAreaOf Z) partial st of
              Inl err \<Rightarrow> Inl err
            | Inr True \<Rightarrow> Inr st
            | Inr False \<Rightarrow> enumFour_y e Z xi xj sumXX ys (collect4 e Z xi xj y partial st)))"

text \<open>
  The loop over \<open>j\<close> from \<open>i - 1\<close> down to 0: the list holds \<open>X[i-1], ..., X[0]\<close>.
\<close>

fun enumFour_j ::
  "env \<Rightarrow> item list \<Rightarrow> item list \<Rightarrow> item \<Rightarrow> item list \<Rightarrow> collector \<Rightarrow> jserror + collector" where
  "enumFour_j e Y Z xi [] st = Inr st"
| "enumFour_j e Y Z xi (xj # xs) st =
     (let sumXX = area xi + area xj
      in if gt_num sumXX (targetNum e) then enumFour_j e Y Z xi xs st
         else
           (case enumFour_y e Z xi xj sumXX (rev Y) st of
              Inl err \<Rightarrow> Inl err
            | Inr st1 \<Rightarrow> enumFour_j e Y Z xi xs st1))"

text \<open>
  The loop over \<open>i\<close> from \<open>X.length - 1\<close> down to 1: the list holds \<open>X[i], X[i-1], ..., X[0]\<close>,
  its head is \<open>X[i]\<close> and its tail the elements the loop over \<open>j\<close> visits. For \<open>i = 0\<close> the
  tail is empty and nothing happens, as in the source, whose loop stops at 1.
\<close>

fun enumFour_i :: "env \<Rightarrow> item list \<Rightarrow> item list \<Rightarrow> item list \<Rightarrow> collector \<Rightarrow> jserror + collector" where
  "enumFour_i e Y Z [] st = Inr st"
| "enumFour_i e Y Z (xi # xs) st =
     (case enumFour_j e Y Z xi xs st of
        Inl err \<Rightarrow> Inl err
      | Inr st1 \<Rightarrow> enumFour_i e Y Z xs st1)"

definition enumFour :: "env \<Rightarrow> item list \<Rightarrow> item list \<Rightarrow> item list \<Rightarrow> collector \<Rightarrow> jserror + collector" where
  "enumFour e X Y Z st = enumFour_i e Y Z (rev X) st"

text \<open>Sequencing of two steps, the second of which runs when the first did not throw.\<close>

definition andThen :: "jserror + 'a \<Rightarrow> ('a \<Rightarrow> jserror + 'b) \<Rightarrow> jserror + 'b" where
  "andThen r f = (case r of Inl err \<Rightarrow> Inl err | Inr x \<Rightarrow> f x)"

text \<open>
  The enumeration of \<open>bestTopKCombos\<close> from the empty collector: the 3-item search, then
  \<open>enumFour(A, B, C)\<close>, \<open>enumFour(B, A, C)\<close>, \<open>enumFour(C, A, B)\<close>.
\<close>

definition enumerate_all :: "env \<Rightarrow> item list \<Rightarrow> item list \<Rightarrow> item list \<Rightarrow> jserror + collector" where
  "enumerate_all e A B C =
     andThen (loop3_a e B C (rev A) ([], {})) (\<lambda>s1.
     andThen (enumFour e A B C s1) (\<lambda>s2.
     andThen (enumFour e B A C s2) (\<lambda>s3.
     enumFour e C A B s3)))"

section \<open>solver.js: the output\<close>

text \<open>
  \<open>Number(x.toFixed(6))\<close> on exact values: the absolute value is rounded to the nearest
  multiple of \<open>10^-6\<close>, the larger one on a tie, and the sign is put back; from \<open>10^21\<close> on
  \<open>toFixed\<close> prints the number itself.
\<close>

definition toFixed6 :: "real \<Rightarrow> real" where
  "toFixed6 x = (if \<bar>x\<bar> \<ge> 10 ^ 21 then x else sgn x * of_int \<lfloor>\<bar>x\<bar> * 10 ^ 6 + 1 / 2\<rfloor> / 10 ^ 6)"

fun toFixed6_num :: "jsnum \<Rightarrow> jsnum" where
  "toFixed6_num (Num x) = Num (toFixed6 x)"
| "toFixed6_num NaN = NaN"
| "toFixed6_num PosInf = PosInf"
| "toFixed6_num NegInf = NegInf"

text \<open>
  One element of the returned array. The three keys of the source are Chinese words:
  \<open>duihuanMianji\<close> is the exchanged area (the rounded sum), \<open>mubiaoMianji\<close> the target area
  and \<open>langfeiMianji\<close> the wasted area (the rounded gap).
\<close>

record result =
  result :: "(real \<times> jsstring) list"
  duihuanMianji :: real
  mubiaoMianji :: jsnum
  langfeiMianji :: jsnum

text \<open>The words of the labels: "(xianfang)" for file B and "(qifang)" for file A.\<close>

definition xianfang :: jsstring where
  "xianfang = [0x28, 0x73B0, 0x623F, 0x29]"

definition qifang :: jsstring where
  "qifang = [0x28, 0x671F, 0x623F, 0x29]"

definition zhuang :: jsstring where
  "zhuang = [0x5E62]"

definition hao :: jsstring where
  "hao = [0x53F7]"

definition shi :: jsstring where
  "shi = [0x5BA4]"

text \<open>The label of a picked item in the current version.\<close>

definition label :: "env \<Rightarrow> item \<Rightarrow> jsstring" where
  "label e x =
     (if srcFile x = fileBName e then
        (let parts = (if community x \<noteq> [] then [trim (community x)] else [])
                   @ (if buildingNo x \<noteq> [] then [trim (buildingNo x) @ zhuang] else [])
                   @ (if doorNo x \<noteq> [] then [trim (doorNo x) @ hao] else [])
                   @ (if roomNo x \<noteq> [] then [trim (roomNo x) @ shi] else [])
         in if parts \<noteq> [] then js ''('' @ join_js (js '' '') parts @ js '')''
            else type x @ xianfang)
      else
        (let extra = (if buildingNo x \<noteq> [] \<or> doorNo x \<noteq> [] \<or> roomNo x \<noteq> [] then
                        (if buildingNo x \<noteq> [] then js '' '' @ trim (buildingNo x) @ zhuang else [])
                      @ (if doorNo x \<noteq> [] then js '' '' @ trim (doorNo x) @ hao else [])
                      @ (if roomNo x \<noteq> [] then js '' '' @ trim (roomNo x) @ shi else [])
                      else [])
         in type x @ qifang @ extra))"

definition formatResult :: "env \<Rightarrow> cand \<Rightarrow> result" where
  "formatResult e c =
     (let sumFixed = toFixed6 (sum_c c)
      in \<lparr>result = map (\<lambda>x. (area x, label e x)) (picked_c c),
          duihuanMianji = sumFixed,
          mubiaoMianji = targetNum e,
          langfeiMianji = toFixed6_num (sub_num (targetNum e) sumFixed)\<rparr>)"

text \<open>The label and the output of the earlier version.\<close>

definition label_v1 :: "env \<Rightarrow> item \<Rightarrow> jsstring" where
  "label_v1 e x = (if srcFile x = fileBName e then type x @ xianfang else type x @ qifang)"

definition formatResult_v1 :: "env \<Rightarrow> cand \<Rightarrow> result" where
  "formatResult_v1 e c =
     (let sumFixed = toFixed6 (sum_c c)
      in \<lparr>result = map (\<lambda>x. (area x, label_v1 e x)) (picked_c c),
          duihuanMianji = sumFixed,
          mubiaoMianji = targetNum e,
          langfeiMianji = toFixed6_num (sub_num (targetNum e) sumFixed)\<rparr>)"

section \<open>solver.js: bestTopKCombos, current version\<close>

text \<open>
  The arguments \<open>target\<close> and \<open>topK0\<close> are the values of \<open>Number(target)\<close> and
  \<open>Number(topK)\<close>. A returned array is \<open>Inr\<close>, a thrown error \<open>Inl\<close>.
\<close>

definition mkEnv ::
  "(real \<Rightarrow> jsstring) \<Rightarrow> jsnum \<Rightarrow> jsstring \<Rightarrow> jsstring \<Rightarrow> jsnum \<Rightarrow> bool \<Rightarrow> jsnum \<Rightarrow> jsnum \<Rightarrow> env" where
  "mkEnv numToString0 target fileAName0 fileBName0 topK0 disallowDominant0 dominantMoreThan0
      othersLessThan0 =
     \<lparr>numToString = numToString0, targetNum = target, fileAName = fileAName0,
      fileBName = fileBName0, topK = normTopK topK0, disallowDominant = disallowDominant0,
      dominantMoreThan = dominantMoreThan0, othersLessThan = othersLessThan0\<rparr>"

definition bestTopKCombos ::
  "(real \<Rightarrow> jsstring) \<Rightarrow> rawcand list \<Rightarrow> jsnum \<Rightarrow> jsstring \<Rightarrow> jsstring \<Rightarrow> jsnum \<Rightarrow> bool \<Rightarrow> jsnum
     \<Rightarrow> jsnum \<Rightarrow> jserror + result list" where
  "bestTopKCombos numToString0 candidates target fileAName0 fileBName0 topK0 disallowDominant0
      dominantMoreThan0 othersLessThan0 =
     (let e = mkEnv numToString0 target fileAName0 fileBName0 topK0 disallowDominant0
                dominantMoreThan0 othersLessThan0;
          items = List.map_filter (toItem fileAName0 fileBName0) candidates;
          A = byTypeFitting target items (js ''A'');
          B = byTypeFitting target items (js ''B'');
          C = byTypeFitting target items (js ''C'')
      in if A = [] \<or> B = [] \<or> C = [] then Inr []
         else andThen (enumerate_all e A B C) (\<lambda>st. Inr (map (formatResult e) (fst st))))"

section \<open>solver.js: bestTopKCombos, earlier version\<close>

text \<open>
  The earlier version visits the groups in ascending order and never breaks a loop, so
  nothing in it can throw.
\<close>

definition collect3_v1 :: "env \<Rightarrow> item list \<Rightarrow> item \<Rightarrow> item \<Rightarrow> real \<Rightarrow> collector \<Rightarrow> collector" where
  "collect3_v1 e C a b partial st =
     (case pickBestUnderOrEqual C (sub_num (targetNum e) partial) of
        None \<Rightarrow> st
      | Some c \<Rightarrow> tryCollect_v1 e [a, b, c] (partial + area c) st)"

fun loop3_b_v1 :: "env \<Rightarrow> item list \<Rightarrow> item \<Rightarrow> item list \<Rightarrow> collector \<Rightarrow> collector" where
  "loop3_b_v1 e C a [] st = st"
| "loop3_b_v1 e C a (b # bs) st =
     (let partial = area a + area b
      in if gt_num partial (targetNum e) then loop3_b_v1 e C a bs st
         else loop3_b_v1 e C a bs (collect3_v1 e C a b partial st))"

fun loop3_a_v1 :: "env \<Rightarrow> item list \<Rightarrow> item list \<Rightarrow> item list \<Rightarrow> collector \<Rightarrow> collector" where
  "loop3_a_v1 e B C [] st = st"
| "loop3_a_v1 e B C (a # as) st = loop3_a_v1 e B C as (loop3_b_v1 e C a B st)"

definition collect4_v1 ::
  "env \<Rightarrow> item list \<Rightarrow> item \<Rightarrow> item \<Rightarrow> item \<Rightarrow> real \<Rightarrow> collector \<Rightarrow> collector" where
  "collect4_v1 e Z xi xj y partial st =
     (case pickBestUnderOrEqual Z (sub_num (targetNum e) partial) of
        None \<Rightarrow> st
      | Some z \<Rightarrow> tryCollect_v1 e [xi, xj, y, z] (partial + area z) st)"

fun enumFour_y_v1 ::
  "env \<Rightarrow> item list \<Rightarrow> item \<Rightarrow> item \<Rightarrow> real \<Rightarrow> item list \<Rightarrow> collector \<Rightarrow> collector" where
  "enumFour_y_v1 e Z xi xj sumXX [] st = st"
| "enumFour_y_v1 e Z xi xj sumXX (y # ys) st =
     (let partial = sumXX + area y
      in if gt_num partial (targetNum e) then enumFour_y_v1 e Z xi xj sumXX ys st
         else enumFour_y_v1 e Z xi xj sumXX ys (collect4_v1 e Z xi xj y partial st))"

text \<open>The loop over \<open>j\<close> from \<open>i + 1\<close> upwards: the list holds \<open>X[i+1], X[i+2], ...\<close>.\<close>

fun enumFour_j_v1 ::
  "env \<Rightarrow> item list \<Rightarrow> item list \<Rightarrow> item \<Rightarrow> item list \<Rightarrow> collector \<Rightarrow> collector" where
  "enumFour_j_v1 e Y Z xi [] st = st"
| "enumFour_j_v1 e Y Z xi (xj # xs) st =
     (let sumXX = area xi + area xj
      in if gt_num sumXX (targetNum e) then enumFour_j_v1 e Y Z xi xs st
         else enumFour_j_v1 e Y Z xi xs (enumFour_y_v1 e Z xi xj sumXX Y st))"

text \<open>The loop over \<open>i\<close> from 0 upwards: the list holds \<open>X[i], X[i+1], ...\<close>.\<close>

fun enumFour_v1 :: "env \<Rightarrow> item list \<Rightarrow> item list \<Rightarrow> item list \<Rightarrow> collector \<Rightarrow> collector" where
  "enumFour_v1 e [] Y Z st = st"
| "enumFour_v1 e (xi # xs) Y Z st = enumFour_v1 e xs Y Z (enumFour_j_v1 e Y Z xi xs st)"

definition enumerate_all_v1 :: "env \<Rightarrow> item list \<Rightarrow> item list \<Rightarrow> item list \<Rightarrow> collector" where
  "enumerate_all_v1 e A B C =
     enumFour_v1 e C A B (enumFour_v1 e B A C (enumFour_v1 e A B C (loop3_a_v1 e B C A ([], {}))))"

definition bestTopKCombos_v1 ::
  "(real \<Rightarrow> jsstring) \<Rightarrow> rawcand list \<Rightarrow> jsnum \<Rightarrow> jsstring \<Rightarrow> jsstring \<Rightarrow> jsnum \<Rightarrow> bool \<Rightarrow> jsnum
     \<Rightarrow> jsnum \<Rightarrow> jserror + result list" where
  "bestTopKCombos_v1 numToString0 candidates target fileAName0 fileBName0 topK0 disallowDominant0
      dominantMoreThan0 othersLessThan0 =
     (let e = mkEnv numToString0 target fileAName0 fileBName0 topK0 disallowDominant0
                dominantMoreThan0 othersLessThan0;
          items = List.map_filter (toItem_v1 fileAName0 fileBName0) candidates;
          A = byTypeSorted items (js ''A'');
          B = byTypeSorted items (js ''B'');
          C = byTypeSorted items (js ''C'')
      in if A = [] \<or> B = [] \<or> C = [] then Inr []
         else Inr (map (formatResult_v1 e) (fst (enumerate_all_v1 e A B C))))"

section \<open>The exhaustive enumeration\<close>

text \<open>
  The reference the pruned enumeration is compared with: the 3-item and the 4-item search
  as the specification words them (every pair of the outer groups, skip a partial sum
  above the target, close with the best-fit lookup, hand the combination to the filter
  and the collector), visiting the outer variables in the same descending order and never
  terminating a loop early. It reads no \<open>minKeep\<close>, so it cannot throw.
\<close>

fun exhaustive3_b :: "env \<Rightarrow> item list \<Rightarrow> item \<Rightarrow> item list \<Rightarrow> collector \<Rightarrow> collector" where
  "exhaustive3_b e C a [] st = st"
| "exhaustive3_b e C a (b # bs) st =
     (let partial = area a + area b
      in if gt_num partial (targetNum e) then exhaustive3_b e C a bs st
         else exhaustive3_b e C a bs (collect3 e C a b partial st))"

fun exhaustive3_a :: "env \<Rightarrow> item list \<Rightarrow> item list \<Rightarrow> item list \<Rightarrow> collector \<Rightarrow> collector" where
  "exhaustive3_a e B C [] st = st"
| "exhaustive3_a e B C (a # as) st = exhaustive3_a e B C as (exhaustive3_b e C a (rev B) st)"

fun exhaustive4_y ::
  "env \<Rightarrow> item list \<Rightarrow> item \<Rightarrow> item \<Rightarrow> real \<Rightarrow> item list \<Rightarrow> collector \<Rightarrow> collector" where
  "exhaustive4_y e Z xi xj sumXX [] st = st"
| "exhaustive4_y e Z xi xj sumXX (y # ys) st =
     (let partial = sumXX + area y
      in if gt_num partial (targetNum e) then exhaustive4_y e Z xi xj sumXX ys st
         else exhaustive4_y e Z xi xj sumXX ys (collect4 e Z xi xj y partial st))"

fun exhaustive4_j ::
  "env \<Rightarrow> item list \<Rightarrow> item list \<Rightarrow> item \<Rightarrow> item list \<Rightarrow> collector \<Rightarrow> collector" where
  "exhaustive4_j e Y Z xi [] st = st"
| "exhaustive4_j e Y Z xi (xj # xs) st =
     (let sumXX = area xi + area xj
      in if gt_num sumXX (targetNum e) then exhaustive4_j e Y Z xi xs st
         else exhaustive4_j e Y Z xi xs (exhaustive4_y e Z xi xj sumXX (rev Y) st))"

fun exhaustive4_i :: "env \<Rightarrow> item list \<Rightarrow> item list \<Rightarrow> item list \<Rightarrow> collector \<Rightarrow> collector" where
  "exhaustive4_i e Y Z [] st = st"
| "exhaustive4_i e Y Z (xi # xs) st = exhaustive4_i e Y Z xs (exhaustive4_j e Y Z xi xs st)"

definition exhaustive4 :: "env \<Rightarrow> item list \<Rightarrow> item list \<Rightarrow> item list \<Rightarrow> collector \<Rightarrow> collector" where
  "exhaustive4 e X Y Z st = exhaustive4_i e Y Z (rev X) st"

definition exhaustive_all :: "env \<Rightarrow> item list \<Rightarrow> item list \<Rightarrow> item list \<Rightarrow> collector" where
  "exhaustive_all e A B C =
     exhaustive4 e C A B (exhaustive4 e B A C (exhaustive4 e A B C
       (exhaustive3_a e B C (rev A) ([], {}))))"

text \<open>\<open>bestTopKCombos\<close> with the exhaustive enumeration in place of the pruned one.\<close>

definition bestTopKCombos_exhaustive ::
  "(real \<Rightarrow> jsstring) \<Rightarrow> rawcand list \<Rightarrow> jsnum \<Rightarrow> jsstring \<Rightarrow> jsstring \<Rightarrow> jsnum \<Rightarrow> bool \<Rightarrow> jsnum
     \<Rightarrow> jsnum \<Rightarrow> jserror + result list" where
  "bestTopKCombos_exhaustive numToString0 candidates target fileAName0 fileBName0 topK0
      disallowDominant0 dominantMoreThan0 othersLessThan0 =
     (let e = mkEnv numToString0 target fileAName0 fileBName0 topK0 disallowDominant0
                dominantMoreThan0 othersLessThan0;
          items = List.map_filter (toItem fileAName0 fileBName0) candidates;
          A = byTypeFitting target items (js ''A'');
          B = byTypeFitting target items (js ''B'');
          C = byTypeFitting target items (js ''C'')
      in if A = [] \<or> B = [] \<or> C = [] then Inr []
         else Inr (map (formatResult e) (fst (exhaustive_all e A B C))))"

section \<open>server.js: the check of the request\<close>

text \<open>
  \<open>handleSolve\<close>, from the values \<open>Number(q.target)\<close>, \<open>Number(q.giftArea)\<close> and the
  \<open>topK\<close> of the request. The task the worker pool runs (\<open>solveTopK\<close> on the loaded data)
  is the parameter \<open>runTask\<close>; a task that throws is answered with status 500.
\<close>

datatype response = Status400 | Status500 | Status200 "result list"

definition handleSolve ::
  "jsnum \<Rightarrow> jsnum \<Rightarrow> jsnum \<Rightarrow> (jsnum \<Rightarrow> jsnum \<Rightarrow> jserror + result list) \<Rightarrow> response" where
  "handleSolve target giftArea0 topK0 runTask =
     (case target of
        Num t \<Rightarrow>
          if t \<le> 0 then Status400
          else
            (let giftArea = (case giftArea0 of
                               Num g \<Rightarrow> if g \<in> set [0, 15, 30] then g else 0
                             | _ \<Rightarrow> 0);
                 effectiveTarget = t + giftArea
             in case runTask (Num effectiveTarget) topK0 of
                  Inl err \<Rightarrow> Status500
                | Inr results \<Rightarrow> Status200 results)
      | _ \<Rightarrow> Status400)"

section \<open>Number::toString on the numbers of the examples\<close>

text \<open>
  The examples below need one concrete conversion for the parameter \<open>numToString\<close>. A
  number with a short decimal expansion is printed digit by digit, as JavaScript prints
  it: the integer part, then a point and the decimal places if there are any (at most 20
  of them are produced).
\<close>

definition digit :: "nat \<Rightarrow> 16 word" where
  "digit d = of_nat (48 + d)"

fun natString :: "nat \<Rightarrow> nat \<Rightarrow> jsstring" where
  "natString 0 n = []"
| "natString (Suc fuel) n =
     (if n < 10 then [digit n] else natString fuel (n div 10) @ [digit (n mod 10)])"

fun fracString :: "nat \<Rightarrow> real \<Rightarrow> jsstring" where
  "fracString 0 f = []"
| "fracString (Suc fuel) f =
     (if f = 0 then []
      else (let d = nat \<lfloor>f * 10\<rfloor> in digit d # fracString fuel (f * 10 - real d)))"

definition decimalString :: "real \<Rightarrow> jsstring" where
  "decimalString x =
     (let m = \<bar>x\<bar>; n = nat \<lfloor>m\<rfloor>; f = m - real n
      in (if x < 0 then js ''-'' else []) @ natString 22 n
         @ (if f = 0 then [] else js ''.'' @ fracString 20 f))"

section \<open>Constants of the statements\<close>

text \<open>The four letters of the alphabet: the upper-case letter and its lower-case form.\<close>

definition letterPairs :: "(16 word \<times> 16 word) set" where
  "letterPairs = {(0x41, 0x61), (0x42, 0x62), (0x43, 0x63), (0x44, 0x64)}"

text \<open>The item \<open>bestTopKCombos\<close> builds from an array \<open>[area, type, srcFile]\<close>.\<close>

definition item3 :: "real \<Rightarrow> jsstring \<Rightarrow> jsstring \<Rightarrow> item" where
  "item3 a t f =
     \<lparr>area = a, type = t, srcFile = f, community = [], buildingNo = [], roomNo = [], doorNo = []\<rparr>"

text \<open>\<open>FILE_A_NAME\<close> and \<open>FILE_B_NAME\<close> of data.js.\<close>

definition FILE_A_NAME :: jsstring where
  "FILE_A_NAME = [0x671F, 0x623F]"

definition FILE_B_NAME :: jsstring where
  "FILE_B_NAME = [0x73B0, 0x623F]"

section \<open>Notions of the statements about the collector\<close>

text \<open>The identity key of a candidate.\<close>

definition keyOf :: "(real \<Rightarrow> jsstring) \<Rightarrow> cand \<Rightarrow> jsstring" where
  "keyOf numToString0 c = makeKey numToString0 (picked_c c)"

text \<open>A list of candidates in descending order of \<open>sum\<close>.\<close>

definition descending :: "cand list \<Rightarrow> bool" where
  "descending topList = sorted (map (\<lambda>a. - sum_c a) topList)"







section \<open>Notions of the statements about the search\<close>

text \<open>
  The condition under which the pruned loops break: the list is full (and so not empty)
  and the partial sum \<open>p\<close> plus the largest area of the closing group \<open>Z\<close> does not
  exceed the sum of the last entry.
\<close>

definition cannotImprove :: "env \<Rightarrow> item list \<Rightarrow> real \<Rightarrow> collector \<Rightarrow> bool" where
  "cannotImprove e Z p st \<longleftrightarrow>
     fst st \<noteq> [] \<and> enat (length (fst st)) \<ge> topK e
     \<and> addle_num p (maxAreaOf Z) (sum_c (last (fst st)))"

text \<open>A candidate that passes every check of \<open>tryCollect\<close>.\<close>

definition accepted :: "env \<Rightarrow> cand \<Rightarrow> bool" where
  "accepted e c \<longleftrightarrow>
     \<not> gt_num (sum_c c) (targetNum e) \<and> hasAtLeastOneFromB e (picked_c c)
     \<and> largeQCount e (picked_c c) < 2 \<and> \<not> violatesDominant e (picked_c c)"

definition allAccepted :: "env \<Rightarrow> collector \<Rightarrow> bool" where
  "allAccepted e st \<longleftrightarrow> (\<forall>c\<in>set (fst st). accepted e c)"

text \<open>
  The pool of scenario A: category A with the sizes 10 and 20, category B with the size 5
  (the only item of file B, the source every combination must include), category C with
  the sizes 8 and 30.
\<close>

definition scenarioA :: "rawcand list" where
  "scenarioA =
     [RawArray (Num 10) (JString (js ''A'')) (JString FILE_A_NAME),
      RawArray (Num 20) (JString (js ''A'')) (JString FILE_A_NAME),
      RawArray (Num 5) (JString (js ''B'')) (JString FILE_B_NAME),
      RawArray (Num 8) (JString (js ''C'')) (JString FILE_A_NAME),
      RawArray (Num 30) (JString (js ''C'')) (JString FILE_A_NAME)]"


text \<open>
  A pool whose only combination has the sum 3.0078125, which lies halfway between two
  multiples of \<open>10^-6\<close>. All three sizes are exact binary fractions.
\<close>

definition halfwayPool :: "rawcand list" where
  "halfwayPool =
     [RawArray (Num 1) (JString (js ''A'')) (JString FILE_B_NAME),
      RawArray (Num 1) (JString (js ''B'')) (JString FILE_B_NAME),
      RawArray (Num 1.0078125) (JString (js ''C'')) (JString FILE_B_NAME)]"

text \<open>
  Scenario D: the combination with the sizes 120, 30 and 20, and the environment with the
  target 200, the rule enabled or not, and the thresholds 100 and 70.
\<close>

definition pickedD :: "item list" where
  "pickedD = [item3 120 (js ''A'') FILE_B_NAME, item3 30 (js ''B'') FILE_B_NAME,
              item3 20 (js ''C'') FILE_A_NAME]"

definition envD :: "bool \<Rightarrow> env" where
  "envD enabled = mkEnv decimalString (Num 200) FILE_A_NAME FILE_B_NAME (Num 5) enabled
                    (Num 100) (Num 70)"



text \<open>
  What the worker computes for a request when the loaded data is the pool of scenario A
  (file names of data.js, no policy configured).
\<close>

definition solveScenarioA :: "jsnum \<Rightarrow> jsnum \<Rightarrow> jserror + result list" where
  "solveScenarioA target k =
     bestTopKCombos decimalString scenarioA target FILE_A_NAME FILE_B_NAME k False NaN NaN"

text \<open>The two results of scenario A.\<close>

definition result33 :: result where
  "result33 = \<lparr>result = [(20, js ''A'' @ qifang), (5, js ''B'' @ xianfang), (8, js ''C'' @ qifang)],
                duihuanMianji = 33, mubiaoMianji = Num 40, langfeiMianji = Num 7\<rparr>"

definition result23 :: result where
  "result23 = \<lparr>result = [(10, js ''A'' @ qifang), (5, js ''B'' @ xianfang), (8, js ''C'' @ qifang)],
                duihuanMianji = 23, mubiaoMianji = Num 40, langfeiMianji = Num 17\<rparr>"

section \<open>Properties: normalizeType\<close>

lemma toUpperCase_letters:
  "toUpperCase 0x41 = 0x41" "toUpperCase 0x42 = 0x42" "toUpperCase 0x43 = 0x43" "toUpperCase 0x44 = 0x44"
  "toUpperCase 0x61 = 0x41" "toUpperCase 0x62 = 0x42" "toUpperCase 0x63 = 0x43" "toUpperCase 0x64 = 0x44"
  by (simp_all add: toUpperCase_def)

lemma isTypeLetter_letters:
  "isTypeLetter 0x41" "isTypeLetter 0x42" "isTypeLetter 0x43" "isTypeLetter 0x44"
  "isTypeLetter 0x61" "isTypeLetter 0x62" "isTypeLetter 0x63" "isTypeLetter 0x64"
  by (simp_all add: isTypeLetter_def)

lemma letter_fwd:
  assumes "isTypeLetter c"
  shows "\<exists>u l. (u, l) \<in> letterPairs \<and> toUpperCase c = u \<and> (c = u \<or> c = l)"
proof -
  from assms consider "c = 0x41" | "c = 0x42" | "c = 0x43" | "c = 0x44" | "c = 0x61" | "c = 0x62" | "c = 0x63" | "c = 0x64"
    unfolding isTypeLetter_def by blast
  then show ?thesis
  proof cases
    case 1 then show ?thesis by (intro exI [of _ "0x41"] exI [of _ "0x61"]) (simp add: letterPairs_def toUpperCase_letters)
  next
    case 2 then show ?thesis by (intro exI [of _ "0x42"] exI [of _ "0x62"]) (simp add: letterPairs_def toUpperCase_letters)
  next
    case 3 then show ?thesis by (intro exI [of _ "0x43"] exI [of _ "0x63"]) (simp add: letterPairs_def toUpperCase_letters)
  next
    case 4 then show ?thesis by (intro exI [of _ "0x44"] exI [of _ "0x64"]) (simp add: letterPairs_def toUpperCase_letters)
  next
    case 5 then show ?thesis by (intro exI [of _ "0x41"] exI [of _ "0x61"]) (simp add: letterPairs_def toUpperCase_letters)
  next
    case 6 then show ?thesis by (intro exI [of _ "0x42"] exI [of _ "0x62"]) (simp add: letterPairs_def toUpperCase_letters)
  next
    case 7 then show ?thesis by (intro exI [of _ "0x43"] exI [of _ "0x63"]) (simp add: letterPairs_def toUpperCase_letters)
  next
    case 8 then show ?thesis by (intro exI [of _ "0x44"] exI [of _ "0x64"]) (simp add: letterPairs_def toUpperCase_letters)
  qed
qed

lemma letter_bwd:
  assumes "(u, l) \<in> letterPairs" and "c = u \<or> c = l"
  shows "isTypeLetter c \<and> toUpperCase c = u"
proof -
  from assms(1) consider "u = 0x41 \<and> l = 0x61" | "u = 0x42 \<and> l = 0x62" | "u = 0x43 \<and> l = 0x63" | "u = 0x44 \<and> l = 0x64"
    unfolding letterPairs_def by blast
  then show ?thesis
  proof cases
    case 1 with assms(2) show ?thesis by (elim disjE) (simp_all add: isTypeLetter_letters toUpperCase_letters)
  next
    case 2 with assms(2) show ?thesis by (elim disjE) (simp_all add: isTypeLetter_letters toUpperCase_letters)
  next
    case 3 with assms(2) show ?thesis by (elim disjE) (simp_all add: isTypeLetter_letters toUpperCase_letters)
  next
    case 4 with assms(2) show ?thesis by (elim disjE) (simp_all add: isTypeLetter_letters toUpperCase_letters)
  qed
qed

lemma normalizeType_JString:
  "normalizeType (JString s) = Some r \<longleftrightarrow>
     (\<exists>c. isTypeLetter c \<and> r = [toUpperCase c] \<and> (trim s = [c] \<or> trim s = [c, lei]))"
proof (cases "trim s")
  case Nil
  then show ?thesis by (simp add: normalizeType_def)
next
  case (Cons c cs)
  note c = this
  show ?thesis
  proof (cases cs)
    case Nil
    with c show ?thesis by (simp add: normalizeType_def) blast
  next
    case (Cons d ds)
    note d = this
    show ?thesis
    proof (cases ds)
      case Nil
      with c d show ?thesis by (simp add: normalizeType_def) blast
    next
      case (Cons x xs)
      with c d show ?thesis by (simp add: normalizeType_def)
    qed
  qed
qed

text \<open>
  Claim C9, as the code has it: \<open>normalizeType\<close> is a total function without effects. It
  returns the upper-case letter exactly when its argument is a string that, once the
  white space at both ends is trimmed, is one of the letters A, B, C, D in either case,
  alone or followed by the suffix U+7C7B. Every other argument (another letter, further
  characters inside, a value that is not a string) gives null.
\<close>

theorem normalizeType_spec:
  "normalizeType v = Some r \<longleftrightarrow>
     (\<exists>s u l. v = JString s \<and> (u, l) \<in> letterPairs \<and> r = [u]
        \<and> (trim s = [u] \<or> trim s = [l] \<or> trim s = [u, lei] \<or> trim s = [l, lei]))"
proof
  assume a: "normalizeType v = Some r"
  then obtain s where v: "v = JString s" by (cases v) (simp_all add: normalizeType_def)
  from a v obtain c where c: "isTypeLetter c" "r = [toUpperCase c]" "trim s = [c] \<or> trim s = [c, lei]"
    using normalizeType_JString [of s r] by blast
  from letter_fwd [OF c(1)] obtain u l where
    ul: "(u, l) \<in> letterPairs" "toUpperCase c = u" "c = u \<or> c = l" by blast
  from c(3) ul(3) have "trim s = [u] \<or> trim s = [l] \<or> trim s = [u, lei] \<or> trim s = [l, lei]" by blast
  with v ul c(2) show "\<exists>s u l. v = JString s \<and> (u, l) \<in> letterPairs \<and> r = [u]
        \<and> (trim s = [u] \<or> trim s = [l] \<or> trim s = [u, lei] \<or> trim s = [l, lei])" by blast
next
  assume "\<exists>s u l. v = JString s \<and> (u, l) \<in> letterPairs \<and> r = [u]
        \<and> (trim s = [u] \<or> trim s = [l] \<or> trim s = [u, lei] \<or> trim s = [l, lei])"
  then obtain s u l where v: "v = JString s" and ul: "(u, l) \<in> letterPairs" and r: "r = [u]"
    and t: "trim s = [u] \<or> trim s = [l] \<or> trim s = [u, lei] \<or> trim s = [l, lei]" by blast
  from t obtain c where c: "c = u \<or> c = l" "trim s = [c] \<or> trim s = [c, lei]" by blast
  from letter_bwd [OF ul c(1)] have "isTypeLetter c \<and> r = [toUpperCase c]" using r by simp
  with c(2) show "normalizeType v = Some r" unfolding v using normalizeType_JString [of s r] by blast
qed


theorem normalizeType_spec_witness:
  "normalizeType (JString [0x20, 0x63, lei, 0x3000]) = Some [0x43]"
proof -
  have "trim [0x20, 0x63, lei, 0x3000] = [0x63, lei]"
    by (simp add: trim_def isWhiteSpace_def lei_def)
  moreover have "(0x43, 0x63) \<in> letterPairs"
    by (simp add: letterPairs_def)
  ultimately show ?thesis
    using normalizeType_spec [of "JString [0x20, 0x63, lei, 0x3000]" "[0x43]"] by blast
qed

text \<open>
  Claim C9 as worded fails: the string " b " (a space, the letter, a space) has further
  characters around the letter, and the result is "B", not null.
\<close>

theorem normalizeType_padded_counterexample:
  "normalizeType (JString (js '' b '')) = Some (js ''B'') \<and> length (js '' b '') = 3"
  by (simp add: normalizeType_def js_def trim_def isWhiteSpace_def isTypeLetter_def
      toUpperCase_def)

section \<open>Properties: the best-fit lookup\<close>

lemma le_num_mono: "x \<le> y \<Longrightarrow> le_num y r \<Longrightarrow> le_num x r"
  by (cases r) auto

lemma bisect_loop_spec:
  assumes "sorted (map area arr)" and "lo \<le> hi" and "hi \<le> length arr"
    and "\<forall>i<lo. le_num (area (arr ! i)) r"
    and "\<forall>i. hi \<le> i \<and> i < length arr \<longrightarrow> \<not> le_num (area (arr ! i)) r"
  shows "lo \<le> bisect_loop arr r lo hi \<and> bisect_loop arr r lo hi \<le> hi
     \<and> (\<forall>i<bisect_loop arr r lo hi. le_num (area (arr ! i)) r)
     \<and> (\<forall>i. bisect_loop arr r lo hi \<le> i \<and> i < length arr \<longrightarrow> \<not> le_num (area (arr ! i)) r)"
  using assms
proof (induction arr r lo hi rule: bisect_loop.induct)
  case (1 arr maxArea lo hi)
  show ?case
  proof (cases "lo < hi")
    case False
    with "1.prems" have "lo = hi" by simp
    with False "1.prems" show ?thesis by (simp add: bisect_loop.simps [of arr maxArea hi hi])
  next
    case True
    define mid where "mid = (lo + hi) div 2"
    have mid: "lo \<le> mid" "mid < hi" using True by (auto simp: mid_def)
    have srt: "\<And>i j. i \<le> j \<Longrightarrow> j < length arr \<Longrightarrow> area (arr ! i) \<le> area (arr ! j)"
      using "1.prems"(1) by (simp add: sorted_iff_nth_mono)
    show ?thesis
    proof (cases "le_num (area (arr ! mid)) maxArea")
      case le: True
      have a: "\<forall>i<mid + 1. le_num (area (arr ! i)) maxArea"
      proof (intro allI impI)
        fix i assume "i < mid + 1"
        then have "area (arr ! i) \<le> area (arr ! mid)" using srt [of i mid] mid "1.prems"(3) by simp
        then show "le_num (area (arr ! i)) maxArea" using le le_num_mono by blast
      qed
      have eq: "bisect_loop arr maxArea lo hi = bisect_loop arr maxArea (mid + 1) hi"
        using True le by (subst bisect_loop.simps) (simp add: mid_def Let_def)
      have "mid + 1 \<le> hi" using mid by simp
      from "1.IH"(1) [OF True mid_def le "1.prems"(1) this "1.prems"(3) a "1.prems"(5)]
      show ?thesis unfolding eq using mid by auto
    next
      case nle: False
      have b: "\<forall>i. mid \<le> i \<and> i < length arr \<longrightarrow> \<not> le_num (area (arr ! i)) maxArea"
      proof (intro allI impI)
        fix i assume "mid \<le> i \<and> i < length arr"
        then have "area (arr ! mid) \<le> area (arr ! i)" using srt [of mid i] by simp
        then show "\<not> le_num (area (arr ! i)) maxArea" using nle le_num_mono by blast
      qed
      have eq: "bisect_loop arr maxArea lo hi = bisect_loop arr maxArea lo mid"
        using True nle by (subst bisect_loop.simps) (simp add: mid_def Let_def)
      have "mid \<le> length arr" using mid "1.prems"(3) by simp
      from "1.IH"(2) [OF True mid_def nle "1.prems"(1) mid(1) this "1.prems"(4) b]
      show ?thesis unfolding eq using mid by auto
    qed
  qed
qed

lemma bisectRight_spec:
  assumes "sorted (map area arr)"
  shows "bisectRightByArea arr r \<le> length arr
     \<and> (\<forall>i<bisectRightByArea arr r. le_num (area (arr ! i)) r)
     \<and> (\<forall>i. bisectRightByArea arr r \<le> i \<and> i < length arr \<longrightarrow> \<not> le_num (area (arr ! i)) r)"
proof -
  have "\<forall>i<(0::nat). le_num (area (arr ! i)) r" by simp
  moreover have "\<forall>i. length arr \<le> i \<and> i < length arr \<longrightarrow> \<not> le_num (area (arr ! i)) r" by auto
  ultimately show ?thesis
    unfolding bisectRightByArea_def
    using bisect_loop_spec [OF assms, of 0 "length arr" r] by blast
qed

lemma pickBest_unfold:
  "pickBestUnderOrEqual arr r =
     (if bisectRightByArea arr r = 0 then None else Some (arr ! (bisectRightByArea arr r - 1)))"
proof (cases "bisectRightByArea arr r")
  case 0
  then show ?thesis by (simp add: pickBestUnderOrEqual_def)
next
  case (Suc n)
  then show ?thesis by (simp add: pickBestUnderOrEqual_def)
qed

lemma pickBest_None:
  assumes "sorted (map area arr)"
  shows "pickBestUnderOrEqual arr r = None \<longleftrightarrow> (\<forall>x\<in>set arr. \<not> le_num (area x) r)"
proof -
  let ?k = "bisectRightByArea arr r"
  note s = bisectRight_spec [OF assms, of r]
  have "pickBestUnderOrEqual arr r = None \<longleftrightarrow> ?k = 0"
    by (simp add: pickBest_unfold)
  also have "\<dots> \<longleftrightarrow> (\<forall>x\<in>set arr. \<not> le_num (area x) r)"
  proof
    assume "?k = 0" with s show "\<forall>x\<in>set arr. \<not> le_num (area x) r"
      by (auto simp: in_set_conv_nth)
  next
    assume a: "\<forall>x\<in>set arr. \<not> le_num (area x) r"
    show "?k = 0"
    proof (rule ccontr)
      assume "?k \<noteq> 0"
      then have "0 < ?k" by simp
      with s have "le_num (area (arr ! 0)) r" "0 < length arr" by auto
      with a show False by auto
    qed
  qed
  finally show ?thesis .
qed

lemma pickBest_Some:
  assumes "sorted (map area arr)" and "pickBestUnderOrEqual arr r = Some y"
  shows "y \<in> set arr \<and> le_num (area y) r \<and> (\<forall>x\<in>set arr. le_num (area x) r \<longrightarrow> area x \<le> area y)"
proof -
  let ?k = "bisectRightByArea arr r"
  note s = bisectRight_spec [OF assms(1), of r]
  have s1: "?k \<le> length arr" using s by blast
  have s2: "\<And>i. i < ?k \<Longrightarrow> le_num (area (arr ! i)) r" using s by blast
  have s3: "\<And>i. ?k \<le> i \<Longrightarrow> i < length arr \<Longrightarrow> \<not> le_num (area (arr ! i)) r" using s by blast
  from assms(2) have k: "0 < ?k" and y: "y = arr ! (?k - 1)"
    by (simp_all add: pickBest_unfold split: if_splits)
  have lt: "?k - 1 < length arr" using k s1 by linarith
  have 1: "y \<in> set arr" unfolding y using lt by (rule nth_mem)
  have 2: "le_num (area y) r" unfolding y using k by (intro s2) simp
  have 3: "\<forall>x\<in>set arr. le_num (area x) r \<longrightarrow> area x \<le> area y"
  proof (intro ballI impI)
    fix x assume "x \<in> set arr" and le: "le_num (area x) r"
    then obtain i where i: "i < length arr" "x = arr ! i" by (auto simp: in_set_conv_nth)
    have "i < ?k" using s3 [of i] i le by (cases "i < ?k") auto
    then have "i \<le> ?k - 1" by simp
    then have "map area arr ! i \<le> map area arr ! (?k - 1)"
      using assms(1) lt by (intro sorted_nth_mono) simp_all
    then show "area x \<le> area y" using lt i y by simp
  qed
  from 1 2 3 show ?thesis by simp
qed

text \<open>
  Claim C3: on an array sorted by ascending area, \<open>pickBestUnderOrEqual\<close> returns an
  element of the array whose area is at most the budget \<open>r\<close> and is the largest such
  area, so that an element whose area equals \<open>r\<close> is a valid pick; it returns null
  exactly when no element has an area of at most \<open>r\<close>, which is the case for a negative
  \<open>r\<close> below every area and for the empty array. The budget may also be NaN or
  infinite: \<open>le_num\<close> is the comparison \<open><=\<close> of the source.
\<close>

theorem pickBestUnderOrEqual_correct:
  assumes "sorted (map area arr)"
  shows "(case pickBestUnderOrEqual arr r of
            None \<Rightarrow> \<forall>x\<in>set arr. \<not> le_num (area x) r
          | Some y \<Rightarrow> y \<in> set arr \<and> le_num (area y) r
                      \<and> (\<forall>x\<in>set arr. le_num (area x) r \<longrightarrow> area x \<le> area y))
         \<and> pickBestUnderOrEqual [] r = None"
proof -
  have "pickBestUnderOrEqual [] r = None"
    using pickBest_None [of "[]" r] by simp
  moreover have "(case pickBestUnderOrEqual arr r of
            None \<Rightarrow> \<forall>x\<in>set arr. \<not> le_num (area x) r
          | Some y \<Rightarrow> y \<in> set arr \<and> le_num (area y) r
                      \<and> (\<forall>x\<in>set arr. le_num (area x) r \<longrightarrow> area x \<le> area y))"
  proof (cases "pickBestUnderOrEqual arr r")
    case None
    then show ?thesis using pickBest_None [OF assms, of r] by simp
  next
    case (Some y)
    then show ?thesis using pickBest_Some [OF assms Some] by simp
  qed
  ultimately show ?thesis by simp
qed

theorem pickBestUnderOrEqual_correct_witness:
  "sorted (map area [item3 5 (js ''C'') FILE_A_NAME, item3 8 (js ''C'') FILE_A_NAME,
                     item3 30 (js ''C'') FILE_A_NAME])
   \<and> pickBestUnderOrEqual [item3 5 (js ''C'') FILE_A_NAME, item3 8 (js ''C'') FILE_A_NAME,
                           item3 30 (js ''C'') FILE_A_NAME] (Num 8)
       = Some (item3 8 (js ''C'') FILE_A_NAME)
   \<and> pickBestUnderOrEqual [item3 5 (js ''C'') FILE_A_NAME, item3 8 (js ''C'') FILE_A_NAME,
                           item3 30 (js ''C'') FILE_A_NAME] (Num (- 1)) = None"
proof -
  let ?arr = "[item3 5 (js ''C'') FILE_A_NAME, item3 8 (js ''C'') FILE_A_NAME,
               item3 30 (js ''C'') FILE_A_NAME]"
  have s: "sorted (map area ?arr)" by (simp add: item3_def)
  have a: "area (item3 5 (js ''C'') FILE_A_NAME) = 5" "area (item3 8 (js ''C'') FILE_A_NAME) = 8"
    "area (item3 30 (js ''C'') FILE_A_NAME) = 30" by (simp_all add: item3_def)
  have p8: "pickBestUnderOrEqual ?arr (Num 8) = Some (item3 8 (js ''C'') FILE_A_NAME)"
  proof (cases "pickBestUnderOrEqual ?arr (Num 8)")
    case None
    with pickBestUnderOrEqual_correct [OF s, of "Num 8"] show ?thesis by (simp add: a)
  next
    case (Some y)
    with pickBestUnderOrEqual_correct [OF s, of "Num 8"]
    have y: "y \<in> set ?arr" "area y \<le> 8" "\<forall>x\<in>set ?arr. area x \<le> 8 \<longrightarrow> area x \<le> area y"
      by simp_all
    from y(3) have "8 \<le> area y" by (simp add: a)
    with y(1,2) have "y = item3 8 (js ''C'') FILE_A_NAME" by (auto simp: a)
    with Some show ?thesis by simp
  qed
  have pm: "pickBestUnderOrEqual ?arr (Num (- 1)) = None"
  proof (cases "pickBestUnderOrEqual ?arr (Num (- 1))")
    case None
    then show ?thesis .
  next
    case (Some y)
    with pickBestUnderOrEqual_correct [OF s, of "Num (- 1)"]
    have "y \<in> set ?arr" "area y \<le> - 1" by simp_all
    then show ?thesis by (auto simp: a)
  qed
  from s p8 pm show ?thesis by blast
qed

section \<open>Properties: the collector\<close>

lemma pushTopK_unfold:
  "pushTopK sh (tpl, seen) c K =
     (if keyOf sh c \<in> seen then (tpl, seen)
      else if enat (length (sort_key (\<lambda>a. - sum_c a) (tpl @ [c]))) > K
           then (butlast (sort_key (\<lambda>a. - sum_c a) (tpl @ [c])),
                 insert (keyOf sh c) seen - {keyOf sh (last (sort_key (\<lambda>a. - sum_c a) (tpl @ [c])))})
           else (sort_key (\<lambda>a. - sum_c a) (tpl @ [c]), insert (keyOf sh c) seen))"
  by (simp add: pushTopK_def keyOf_def Let_def)


lemma sorted_last_min:
  assumes "sorted (map f xs)" and "x \<in> set xs"
  shows "f x \<le> f (last xs)"
proof -
  from assms(2) have ne: "xs \<noteq> []" by auto
  then have xs: "xs = butlast xs @ [last xs]" by simp
  have "sorted (map f (butlast xs @ [last xs]))" using assms(1) xs by simp
  then have "\<forall>y\<in>set (butlast xs). f y \<le> f (last xs)"
    by (simp add: sorted_append)
  moreover have "x \<in> set (butlast xs) \<or> x = last xs"
    using assms(2) by (subst (asm) xs) auto
  ultimately show ?thesis by auto
qed

lemma sortk_props:
  "set (sort_key f xs) = set xs" "length (sort_key f xs) = length xs" "sorted (map f (sort_key f xs))"
  "distinct (map g (sort_key f xs)) = distinct (map g xs)"
proof -
  show "set (sort_key f xs) = set xs" by simp
  show "length (sort_key f xs) = length xs" by simp
  show "sorted (map f (sort_key f xs))" by simp
  show "distinct (map g (sort_key f xs)) = distinct (map g xs)"
    by (simp add: distinct_map)
qed


lemma pushTopK_subset:
  "set (fst (pushTopK sh st c K)) \<subseteq> insert c (set (fst st))"
proof -
  obtain tpl seen where st: "st = (tpl, seen)" by (cases st)
  have "set (butlast (sort_key (\<lambda>a. - sum_c a) (tpl @ [c]))) \<subseteq> set (sort_key (\<lambda>a. - sum_c a) (tpl @ [c]))"
    by (meson in_set_butlastD subsetI)
  then show ?thesis unfolding st by (auto simp: pushTopK_unfold)
qed


lemma descending_last_least:
  assumes "descending xs" and "x \<in> set xs"
  shows "sum_c (last xs) \<le> sum_c x"
  using sorted_last_min [of "\<lambda>a. - sum_c a" xs x] assms by (simp add: descending_def)










subsection \<open>The collector on concrete candidates\<close>

lemma natString_simps2:
  "natString (numeral k) n = (if n < 10 then [digit n] else natString (pred_numeral k) (n div 10) @ [digit (n mod 10)])"
  by (simp add: numeral_eq_Suc)

lemma fracString_simps2:
  "fracString (numeral k) f = (if f = 0 then []
      else (let d = nat \<lfloor>f * 10\<rfloor> in digit d # fracString (pred_numeral k) (f * 10 - real d)))"
  by (simp add: numeral_eq_Suc)

lemma d1: "decimalString 20 = js ''20''"
  by (simp add: decimalString_def natString_simps2 fracString_simps2 digit_def js_def)

lemma d2: "decimalString 1.0078125 = js ''1.0078125''"
  by (simp add: decimalString_def natString_simps2 fracString_simps2 digit_def js_def Let_def)

lemma k1: "makeKey decimalString [item3 20 (js ''A'') FILE_A_NAME, item3 5 (js ''B'') FILE_B_NAME, item3 8 (js ''C'') FILE_A_NAME]
   = js ''20-A-'' @ FILE_A_NAME @ js ''|5-B-'' @ FILE_B_NAME @ js ''|8-C-'' @ FILE_A_NAME"
  by (simp add: makeKey_def item3_def decimalString_def natString_simps2 fracString_simps2 digit_def js_def FILE_A_NAME_def FILE_B_NAME_def)









section \<open>Properties: the pruned loops against the exhaustive ones\<close>

lemma pushTopK_descending:
  assumes "descending (fst st)"
  shows "descending (fst (pushTopK sh st c K))"
proof -
  obtain tpl seen where st: "st = (tpl, seen)" by (cases st)
  let ?l1 = "sort_key (\<lambda>a. - sum_c a) (tpl @ [c])"
  have s1: "descending ?l1" unfolding descending_def by (rule sortk_props(3))
  then have s2: "descending (butlast ?l1)"
    unfolding descending_def by (simp add: map_butlast sorted_butlast)
  from assms s1 s2 show ?thesis unfolding st by (simp add: pushTopK_unfold)
qed

lemma tryCollect_descending:
  assumes "descending (fst st)"
  shows "descending (fst (tryCollect e picked s st))"
  using assms pushTopK_descending [OF assms] by (simp add: tryCollect_def)

lemma pushTopK_noop:
  assumes desc: "descending tpl" and ne: "tpl \<noteq> []" and full: "enat (length tpl) \<ge> K"
    and le: "sum_c c \<le> sum_c (last tpl)"
  shows "pushTopK sh (tpl, seen) c K = (tpl, seen)"
proof (cases "keyOf sh c \<in> seen")
  case True
  then show ?thesis by (simp add: pushTopK_unfold)
next
  case False
  have "\<forall>x\<in>set tpl. sum_c c \<le> sum_c x"
    using descending_last_least [OF desc] le by fastforce
  then have "sorted (map (\<lambda>a. - sum_c a) (tpl @ [c]))"
    using desc by (simp add: descending_def sorted_append)
  then have l1: "sort_key (\<lambda>a. - sum_c a) (tpl @ [c]) = tpl @ [c]"
    by (rule sort_key_id_if_sorted)
  have "K < enat (Suc (length tpl))"
    using full by (cases K) simp_all
  then show ?thesis using False by (simp add: pushTopK_unfold l1)
qed

lemma tryCollect_noop:
  assumes "descending (fst st)" and "fst st \<noteq> []" and "enat (length (fst st)) \<ge> topK e"
    and "s \<le> sum_c (last (fst st))"
  shows "tryCollect e picked s st = st"
proof -
  obtain tpl seen where st: "st = (tpl, seen)" by (cases st)
  have "pushTopK (numToString e) (tpl, seen) \<lparr>sum_c = s, picked_c = picked\<rparr> (topK e) = (tpl, seen)"
    using assms unfolding st by (intro pushTopK_noop) simp_all
  then show ?thesis unfolding st by (simp add: tryCollect_def)
qed

lemma pickBest_in_set:
  assumes "sorted (map area Z)" and "pickBestUnderOrEqual Z r = Some z"
  shows "z \<in> set Z"
  using pickBest_Some [OF assms] by blast

lemma area_le_last:
  assumes "sorted (map area Z)" and "z \<in> set Z"
  shows "area z \<le> area (last Z)"
  using sorted_last_min [OF assms] .

lemma pruneCheck_cases:
  assumes "topK e \<ge> 1"
  shows "pruneCheck e (maxAreaOf Z) p st = Inr (cannotImprove e Z p st)"
proof (cases "enat (length (fst st)) \<ge> topK e")
  case False
  then show ?thesis by (simp add: pruneCheck_def cannotImprove_def)
next
  case True
  have "fst st \<noteq> []"
  proof
    assume "fst st = []"
    with True have "topK e \<le> 0" by (simp add: zero_enat_def)
    with assms have "(1::enat) \<le> 0" by (rule order_trans)
    then show False by (simp add: one_enat_def zero_enat_def)
  qed
  with True show ?thesis by (cases "fst st") (simp_all add: pruneCheck_def cannotImprove_def Let_def)
qed

lemma collect_noop:
  assumes desc: "descending (fst st)" and srt: "sorted (map area Z)"
    and ci: "cannotImprove e Z p st" and le: "p' \<le> p"
    and pk: "pickBestUnderOrEqual Z r = Some z"
  shows "tryCollect e picked (p' + area z) st = st"
proof -
  from pk srt have zin: "z \<in> set Z" by (rule pickBest_in_set [rotated])
  then have ne: "Z \<noteq> []" by auto
  from ci ne have "p + area (last Z) \<le> sum_c (last (fst st))"
    by (simp add: cannotImprove_def maxAreaOf_def)
  moreover have "area z \<le> area (last Z)" using area_le_last [OF srt zin] .
  ultimately have "p' + area z \<le> sum_c (last (fst st))" using le by linarith
  with ci desc show ?thesis by (intro tryCollect_noop) (simp_all add: cannotImprove_def)
qed


lemma collect3_descending:
  "descending (fst st) \<Longrightarrow> descending (fst (collect3 e C a b p st))"
  by (simp add: collect3_def tryCollect_descending split: option.split)

lemma collect4_descending:
  "descending (fst st) \<Longrightarrow> descending (fst (collect4 e Z xi xj y p st))"
  by (simp add: collect4_def tryCollect_descending split: option.split)

lemma exhaustive3_b_descending:
  "descending (fst st) \<Longrightarrow> descending (fst (exhaustive3_b e C a bs st))"
  by (induction bs arbitrary: st) (simp_all add: Let_def collect3_descending)

lemma exhaustive3_a_descending:
  "descending (fst st) \<Longrightarrow> descending (fst (exhaustive3_a e B C as st))"
  by (induction as arbitrary: st) (simp_all add: exhaustive3_b_descending)

lemma exhaustive4_y_descending:
  "descending (fst st) \<Longrightarrow> descending (fst (exhaustive4_y e Z xi xj s ys st))"
  by (induction ys arbitrary: st) (simp_all add: Let_def collect4_descending)

lemma exhaustive4_j_descending:
  "descending (fst st) \<Longrightarrow> descending (fst (exhaustive4_j e Y Z xi xs st))"
  by (induction xs arbitrary: st) (simp_all add: Let_def exhaustive4_y_descending)

lemma exhaustive4_i_descending:
  "descending (fst st) \<Longrightarrow> descending (fst (exhaustive4_i e Y Z xs st))"
  by (induction xs arbitrary: st) (simp_all add: exhaustive4_j_descending)

lemma exhaustive4_descending:
  "descending (fst st) \<Longrightarrow> descending (fst (exhaustive4 e X Y Z st))"
  by (simp add: exhaustive4_def exhaustive4_i_descending)

lemma exhaustive3_b_noop:
  assumes "descending (fst st)" and "sorted (map area C)" and "cannotImprove e C p st"
    and "\<forall>b\<in>set bs. area a + area b \<le> p"
  shows "exhaustive3_b e C a bs st = st"
  using assms(4)
proof (induction bs)
  case Nil
  show ?case by simp
next
  case (Cons b bs)
  have c: "collect3 e C a b (area a + area b) st = st"
  proof (cases "pickBestUnderOrEqual C (sub_num (targetNum e) (area a + area b))")
    case None
    then show ?thesis by (simp add: collect3_def)
  next
    case (Some c)
    have "area a + area b \<le> p" using Cons.prems by simp
    from collect_noop [OF assms(1,2,3) this Some] show ?thesis
      using Some by (simp add: collect3_def)
  qed
  from Cons.prems have "\<forall>b\<in>set bs. area a + area b \<le> p" by simp
  with Cons.IH c show ?case by (simp add: Let_def)
qed

lemma exhaustive4_y_noop:
  assumes "descending (fst st)" and "sorted (map area Z)" and "cannotImprove e Z p st"
    and "\<forall>y\<in>set ys. s + area y \<le> p"
  shows "exhaustive4_y e Z xi xj s ys st = st"
  using assms(4)
proof (induction ys)
  case Nil
  show ?case by simp
next
  case (Cons y ys)
  have c: "collect4 e Z xi xj y (s + area y) st = st"
  proof (cases "pickBestUnderOrEqual Z (sub_num (targetNum e) (s + area y))")
    case None
    then show ?thesis by (simp add: collect4_def)
  next
    case (Some z)
    have "s + area y \<le> p" using Cons.prems by simp
    from collect_noop [OF assms(1,2,3) this Some] show ?thesis
      using Some by (simp add: collect4_def)
  qed
  from Cons.prems have "\<forall>y\<in>set ys. s + area y \<le> p" by simp
  with Cons.IH c show ?case by (simp add: Let_def)
qed

lemma loop3_b_eq:
  assumes "topK e \<ge> 1" and "sorted (map area C)"
    and "descending (fst st)" and "sorted_wrt (\<lambda>x y. area x \<ge> area y) bs"
  shows "loop3_b e C a bs st = Inr (exhaustive3_b e C a bs st)"
  using assms(3,4)
proof (induction bs arbitrary: st)
  case Nil
  show ?case by simp
next
  case (Cons b bs)
  let ?p = "area a + area b"
  from Cons.prems(2) have ord: "sorted_wrt (\<lambda>x y. area x \<ge> area y) bs"
    and le: "\<forall>b'\<in>set bs. area b' \<le> area b" by simp_all
  show ?case
  proof (cases "gt_num ?p (targetNum e)")
    case True
    then show ?thesis using Cons.IH [OF Cons.prems(1) ord] by (simp add: Let_def)
  next
    case False
    note pc = pruneCheck_cases [OF assms(1), of C ?p st]
    show ?thesis
    proof (cases "cannotImprove e C ?p st")
      case True
      have "\<forall>b'\<in>set (b # bs). area a + area b' \<le> ?p" using le by simp
      from exhaustive3_b_noop [OF Cons.prems(1) assms(2) True this]
      show ?thesis using False True pc by (simp add: Let_def)
    next
      case ni: False
      have "descending (fst (collect3 e C a b ?p st))"
        using Cons.prems(1) by (rule collect3_descending)
      from Cons.IH [OF this ord] show ?thesis using False ni pc by (simp add: Let_def)
    qed
  qed
qed

lemma enumFour_y_eq:
  assumes "topK e \<ge> 1" and "sorted (map area Z)"
    and "descending (fst st)" and "sorted_wrt (\<lambda>x y. area x \<ge> area y) ys"
  shows "enumFour_y e Z xi xj s ys st = Inr (exhaustive4_y e Z xi xj s ys st)"
  using assms(3,4)
proof (induction ys arbitrary: st)
  case Nil
  show ?case by simp
next
  case (Cons y ys)
  let ?p = "s + area y"
  from Cons.prems(2) have ord: "sorted_wrt (\<lambda>x y. area x \<ge> area y) ys"
    and le: "\<forall>y'\<in>set ys. area y' \<le> area y" by simp_all
  show ?case
  proof (cases "gt_num ?p (targetNum e)")
    case True
    then show ?thesis using Cons.IH [OF Cons.prems(1) ord] by (simp add: Let_def)
  next
    case False
    note pc = pruneCheck_cases [OF assms(1), of Z ?p st]
    show ?thesis
    proof (cases "cannotImprove e Z ?p st")
      case True
      have "\<forall>y'\<in>set (y # ys). s + area y' \<le> ?p" using le by simp
      from exhaustive4_y_noop [OF Cons.prems(1) assms(2) True this]
      show ?thesis using False True pc by (simp add: Let_def)
    next
      case ni: False
      have "descending (fst (collect4 e Z xi xj y ?p st))"
        using Cons.prems(1) by (rule collect4_descending)
      from Cons.IH [OF this ord] show ?thesis using False ni pc by (simp add: Let_def)
    qed
  qed
qed

lemma rev_nonincreasing:
  "sorted (map area B) \<Longrightarrow> sorted_wrt (\<lambda>x y. area x \<ge> area y) (rev B)"
  by (simp add: sorted_map sorted_wrt_rev)

lemma loop3_a_eq:
  assumes "topK e \<ge> 1" and "sorted (map area C)" and "sorted (map area B)"
    and "descending (fst st)"
  shows "loop3_a e B C as st = Inr (exhaustive3_a e B C as st)"
  using assms(4)
proof (induction as arbitrary: st)
  case Nil
  show ?case by simp
next
  case (Cons a as)
  have b: "loop3_b e C a (rev B) st = Inr (exhaustive3_b e C a (rev B) st)"
    using loop3_b_eq [OF assms(1,2) Cons.prems rev_nonincreasing [OF assms(3)]] .
  have "descending (fst (exhaustive3_b e C a (rev B) st))"
    using Cons.prems by (rule exhaustive3_b_descending)
  from Cons.IH [OF this] b show ?case by simp
qed

lemma enumFour_j_eq:
  assumes "topK e \<ge> 1" and "sorted (map area Z)" and "sorted (map area Y)"
    and "descending (fst st)"
  shows "enumFour_j e Y Z xi xs st = Inr (exhaustive4_j e Y Z xi xs st)"
  using assms(4)
proof (induction xs arbitrary: st)
  case Nil
  show ?case by simp
next
  case (Cons xj xs)
  let ?s = "area xi + area xj"
  have y: "enumFour_y e Z xi xj ?s (rev Y) st = Inr (exhaustive4_y e Z xi xj ?s (rev Y) st)"
    using enumFour_y_eq [OF assms(1,2) Cons.prems rev_nonincreasing [OF assms(3)]] .
  have "descending (fst (exhaustive4_y e Z xi xj ?s (rev Y) st))"
    using Cons.prems by (rule exhaustive4_y_descending)
  from Cons.IH [OF this] Cons.IH [OF Cons.prems] y show ?case by (simp add: Let_def)
qed

lemma enumFour_i_eq:
  assumes "topK e \<ge> 1" and "sorted (map area Z)" and "sorted (map area Y)"
    and "descending (fst st)"
  shows "enumFour_i e Y Z xs st = Inr (exhaustive4_i e Y Z xs st)"
  using assms(4)
proof (induction xs arbitrary: st)
  case Nil
  show ?case by simp
next
  case (Cons xi xs)
  have j: "enumFour_j e Y Z xi xs st = Inr (exhaustive4_j e Y Z xi xs st)"
    using enumFour_j_eq [OF assms(1,2,3) Cons.prems] .
  have "descending (fst (exhaustive4_j e Y Z xi xs st))"
    using Cons.prems by (rule exhaustive4_j_descending)
  from Cons.IH [OF this] j show ?case by simp
qed

lemma enumFour_eq:
  assumes "topK e \<ge> 1" and "sorted (map area Z)" and "sorted (map area Y)"
    and "descending (fst st)"
  shows "enumFour e X Y Z st = Inr (exhaustive4 e X Y Z st)"
  unfolding enumFour_def exhaustive4_def using enumFour_i_eq [OF assms] .

lemma enumerate_all_eq:
  assumes "topK e \<ge> 1" and "sorted (map area A)" and "sorted (map area B)"
    and "sorted (map area C)"
  shows "enumerate_all e A B C = Inr (exhaustive_all e A B C)"
proof -
  let ?s0 = "([], {}) :: collector"
  let ?s1 = "exhaustive3_a e B C (rev A) ?s0"
  let ?s2 = "exhaustive4 e A B C ?s1"
  let ?s3 = "exhaustive4 e B A C ?s2"
  have d0: "descending (fst ?s0)" by (simp add: descending_def)
  have d1: "descending (fst ?s1)" using d0 by (rule exhaustive3_a_descending)
  have d2: "descending (fst ?s2)" using d1 by (rule exhaustive4_descending)
  have d3: "descending (fst ?s3)" using d2 by (rule exhaustive4_descending)
  have 1: "loop3_a e B C (rev A) ?s0 = Inr ?s1"
    using loop3_a_eq [OF assms(1) assms(4) assms(3) d0] .
  have 2: "enumFour e A B C ?s1 = Inr ?s2"
    using enumFour_eq [OF assms(1) assms(4) assms(3) d1] .
  have 3: "enumFour e B A C ?s2 = Inr ?s3"
    using enumFour_eq [OF assms(1) assms(4) assms(2) d2] .
  have 4: "enumFour e C A B ?s3 = Inr (exhaustive4 e C A B ?s3)"
    using enumFour_eq [OF assms(1) assms(3) assms(2) d3] .
  show ?thesis
    by (simp add: enumerate_all_def exhaustive_all_def andThen_def 1 2 3 4)
qed

section \<open>Properties: what reaches the collector\<close>

lemma tryCollect_accepted:
  assumes "allAccepted e st"
  shows "allAccepted e (tryCollect e picked s st)"
proof (cases "tryCollect e picked s st = st")
  case True
  with assms show ?thesis by simp
next
  case False
  let ?c = "\<lparr>sum_c = s, picked_c = picked\<rparr>"
  from False have acc: "accepted e ?c" and eq: "tryCollect e picked s st = pushTopK (numToString e) st ?c (topK e)"
    by (simp_all add: tryCollect_def accepted_def split: if_splits)
  have "set (fst (pushTopK (numToString e) st ?c (topK e))) \<subseteq> insert ?c (set (fst st))"
    by (rule pushTopK_subset)
  with acc assms show ?thesis unfolding eq allAccepted_def by blast
qed

lemma collect3_accepted: "allAccepted e st \<Longrightarrow> allAccepted e (collect3 e C a b p st)"
  by (simp add: collect3_def tryCollect_accepted split: option.split)

lemma collect4_accepted: "allAccepted e st \<Longrightarrow> allAccepted e (collect4 e Z xi xj y p st)"
  by (simp add: collect4_def tryCollect_accepted split: option.split)

lemma exhaustive3_b_accepted:
  "allAccepted e st \<Longrightarrow> allAccepted e (exhaustive3_b e C a bs st)"
  by (induction bs arbitrary: st) (simp_all add: Let_def collect3_accepted)

lemma exhaustive3_a_accepted:
  "allAccepted e st \<Longrightarrow> allAccepted e (exhaustive3_a e B C as st)"
  by (induction as arbitrary: st) (simp_all add: exhaustive3_b_accepted)

lemma exhaustive4_y_accepted:
  "allAccepted e st \<Longrightarrow> allAccepted e (exhaustive4_y e Z xi xj s ys st)"
  by (induction ys arbitrary: st) (simp_all add: Let_def collect4_accepted)

lemma exhaustive4_j_accepted:
  "allAccepted e st \<Longrightarrow> allAccepted e (exhaustive4_j e Y Z xi xs st)"
  by (induction xs arbitrary: st) (simp_all add: Let_def exhaustive4_y_accepted)

lemma exhaustive4_i_accepted:
  "allAccepted e st \<Longrightarrow> allAccepted e (exhaustive4_i e Y Z xs st)"
  by (induction xs arbitrary: st) (simp_all add: exhaustive4_j_accepted)

lemma exhaustive4_accepted:
  "allAccepted e st \<Longrightarrow> allAccepted e (exhaustive4 e X Y Z st)"
  by (simp add: exhaustive4_def exhaustive4_i_accepted)

lemma exhaustive_all_accepted: "allAccepted e (exhaustive_all e A B C)"
  unfolding exhaustive_all_def
  by (intro exhaustive4_accepted exhaustive3_a_accepted) (simp add: allAccepted_def)

lemma normTopK_ge_1: "normTopK k \<ge> 1"
proof (cases k)
  case (Num x)
  have "Suc 0 \<le> nat (max 1 \<lfloor>x\<rfloor>)" by linarith
  then show ?thesis using Num by (simp add: one_enat_def)
qed (simp_all add: one_enat_def)

lemma byTypeSorted_sorted: "sorted (map area (byTypeSorted items t))"
  by (simp add: byTypeSorted_def)

lemma byTypeFitting_sorted: "sorted (map area (byTypeFitting target items t))"
  unfolding byTypeFitting_def by (rule sorted_filter) (rule byTypeSorted_sorted)

lemma topK_mkEnv: "topK (mkEnv sh target fA fB k dd dm ol) = normTopK k"
  by (simp add: mkEnv_def)

lemma bestTopKCombos_exhaustive_eq:
  "bestTopKCombos sh cands target fA fB k dd dm ol
     = bestTopKCombos_exhaustive sh cands target fA fB k dd dm ol"
proof -
  let ?e = "mkEnv sh target fA fB k dd dm ol"
  let ?items = "List.map_filter (toItem fA fB) cands"
  let ?A = "byTypeFitting target ?items (js ''A'')"
  let ?B = "byTypeFitting target ?items (js ''B'')"
  let ?C = "byTypeFitting target ?items (js ''C'')"
  have "topK ?e \<ge> 1" unfolding topK_mkEnv by (rule normTopK_ge_1)
  from enumerate_all_eq [OF this byTypeFitting_sorted byTypeFitting_sorted byTypeFitting_sorted]
  have "enumerate_all ?e ?A ?B ?C = Inr (exhaustive_all ?e ?A ?B ?C)" .
  then show ?thesis
    by (simp add: bestTopKCombos_def bestTopKCombos_exhaustive_def Let_def andThen_def)
qed

lemma bestTopKCombos_results:
  assumes "bestTopKCombos sh cands target fA fB k dd dm ol = Inr rs"
  shows "\<exists>tpl. rs = map (formatResult (mkEnv sh target fA fB k dd dm ol)) tpl
           \<and> (\<forall>c\<in>set tpl. accepted (mkEnv sh target fA fB k dd dm ol) c)"
proof -
  let ?e = "mkEnv sh target fA fB k dd dm ol"
  let ?items = "List.map_filter (toItem fA fB) cands"
  let ?A = "byTypeFitting target ?items (js ''A'')"
  let ?B = "byTypeFitting target ?items (js ''B'')"
  let ?C = "byTypeFitting target ?items (js ''C'')"
  from assms have ex: "bestTopKCombos_exhaustive sh cands target fA fB k dd dm ol = Inr rs"
    by (simp add: bestTopKCombos_exhaustive_eq)
  show ?thesis
  proof (cases "?A = [] \<or> ?B = [] \<or> ?C = []")
    case True
    with ex have "rs = []" by (simp add: bestTopKCombos_exhaustive_def Let_def)
    then show ?thesis by (intro exI [of _ "[]"]) simp
  next
    case False
    with ex have "rs = map (formatResult ?e) (fst (exhaustive_all ?e ?A ?B ?C))"
      by (simp add: bestTopKCombos_exhaustive_def Let_def)
    moreover have "\<forall>c\<in>set (fst (exhaustive_all ?e ?A ?B ?C)). accepted ?e c"
      using exhaustive_all_accepted [of ?e ?A ?B ?C] by (simp add: allAccepted_def)
    ultimately show ?thesis by blast
  qed
qed

lemma bestTopKCombos_total:
  "\<exists>rs. bestTopKCombos sh cands target fA fB k dd dm ol = Inr rs"
  unfolding bestTopKCombos_exhaustive_eq
  by (simp add: bestTopKCombos_exhaustive_def Let_def)

section \<open>Properties: the rules of the filter\<close>

lemma exactly_one_iff:
  "length (filter P xs) = 1 \<longleftrightarrow>
     (\<exists>i<length xs. P (xs ! i) \<and> (\<forall>j<length xs. j \<noteq> i \<longrightarrow> \<not> P (xs ! j)))"
proof -
  let ?S = "{i. i < length xs \<and> P (xs ! i)}"
  have "length (filter P xs) = card ?S" by (rule length_filter_conv_card)
  moreover have "card ?S = 1 \<longleftrightarrow> (\<exists>i. ?S = {i})" unfolding One_nat_def by (rule card_1_singleton_iff)
  moreover have "(\<exists>i. ?S = {i}) \<longleftrightarrow>
     (\<exists>i<length xs. P (xs ! i) \<and> (\<forall>j<length xs. j \<noteq> i \<longrightarrow> \<not> P (xs ! j)))"
  proof
    assume "\<exists>i. ?S = {i}"
    then obtain i where i: "?S = {i}" ..
    then have "i \<in> ?S" by simp
    moreover have "\<forall>j<length xs. j \<noteq> i \<longrightarrow> \<not> P (xs ! j)"
    proof (intro allI impI)
      fix j assume "j < length xs" "j \<noteq> i"
      show "\<not> P (xs ! j)"
      proof
        assume "P (xs ! j)"
        with \<open>j < length xs\<close> have "j \<in> ?S" by simp
        with i \<open>j \<noteq> i\<close> show False by simp
      qed
    qed
    ultimately show "\<exists>i<length xs. P (xs ! i) \<and> (\<forall>j<length xs. j \<noteq> i \<longrightarrow> \<not> P (xs ! j))"
      by blast
  next
    assume "\<exists>i<length xs. P (xs ! i) \<and> (\<forall>j<length xs. j \<noteq> i \<longrightarrow> \<not> P (xs ! j))"
    then obtain i where "i < length xs" "P (xs ! i)" "\<forall>j<length xs. j \<noteq> i \<longrightarrow> \<not> P (xs ! j)"
      by blast
    then have "?S = {i}" by blast
    then show "\<exists>i. ?S = {i}" ..
  qed
  ultimately show ?thesis by simp
qed

lemma violatesDominant_Num:
  assumes "dominantMoreThan e = Num d" and "othersLessThan e = Num l"
  shows "violatesDominant e picked \<longleftrightarrow>
     disallowDominant e \<and> length (filter (\<lambda>x. d < area x) picked) = 1
     \<and> (\<forall>x\<in>set picked. area x \<le> d \<longrightarrow> area x < l)"
  by (auto simp: violatesDominant_def assms Let_def filter_map list_all_iff comp_def)

lemma violatesDominant_not_finite:
  assumes "\<not> disallowDominant e \<or> \<not> isFinite (dominantMoreThan e) \<or> \<not> isFinite (othersLessThan e)"
  shows "\<not> violatesDominant e picked"
  using assms by (auto simp: violatesDominant_def)

lemma isFinite_Num: "isFinite n \<longleftrightarrow> (\<exists>x. n = Num x)"
  by (cases n) simp_all

lemma violatesDominant_iff:
  "violatesDominant e picked \<longleftrightarrow>
     disallowDominant e
     \<and> (\<exists>d l. dominantMoreThan e = Num d \<and> othersLessThan e = Num l
          \<and> (\<exists>i<length picked. d < area (picked ! i)
                \<and> (\<forall>j<length picked. j \<noteq> i \<longrightarrow> area (picked ! j) \<le> d \<and> area (picked ! j) < l)))"
proof
  assume v: "violatesDominant e picked"
  then have dd: "disallowDominant e" and "isFinite (dominantMoreThan e)" "isFinite (othersLessThan e)"
    using violatesDominant_not_finite [of e picked] by blast+
  then obtain d l where dl: "dominantMoreThan e = Num d" "othersLessThan e = Num l"
    by (auto simp: isFinite_Num)
  from v have one: "length (filter (\<lambda>x. d < area x) picked) = 1"
    and small: "\<forall>x\<in>set picked. area x \<le> d \<longrightarrow> area x < l"
    by (simp_all add: violatesDominant_Num [OF dl])
  from one obtain i where i: "i < length picked" "d < area (picked ! i)"
    "\<forall>j<length picked. j \<noteq> i \<longrightarrow> \<not> d < area (picked ! j)"
    unfolding exactly_one_iff by blast
  have "\<forall>j<length picked. j \<noteq> i \<longrightarrow> area (picked ! j) \<le> d \<and> area (picked ! j) < l"
  proof (intro allI impI)
    fix j assume j: "j < length picked" "j \<noteq> i"
    with i(3) have "area (picked ! j) \<le> d" by (simp add: not_less)
    moreover from j(1) have "picked ! j \<in> set picked" by simp
    ultimately show "area (picked ! j) \<le> d \<and> area (picked ! j) < l" using small by blast
  qed
  with dd dl i(1,2) show "disallowDominant e
     \<and> (\<exists>d l. dominantMoreThan e = Num d \<and> othersLessThan e = Num l
          \<and> (\<exists>i<length picked. d < area (picked ! i)
                \<and> (\<forall>j<length picked. j \<noteq> i \<longrightarrow> area (picked ! j) \<le> d \<and> area (picked ! j) < l)))"
    by blast
next
  assume "disallowDominant e
     \<and> (\<exists>d l. dominantMoreThan e = Num d \<and> othersLessThan e = Num l
          \<and> (\<exists>i<length picked. d < area (picked ! i)
                \<and> (\<forall>j<length picked. j \<noteq> i \<longrightarrow> area (picked ! j) \<le> d \<and> area (picked ! j) < l)))"
  then obtain d l i where dd: "disallowDominant e" and dl: "dominantMoreThan e = Num d" "othersLessThan e = Num l"
    and i: "i < length picked" "d < area (picked ! i)"
    and oth: "\<forall>j<length picked. j \<noteq> i \<longrightarrow> area (picked ! j) \<le> d \<and> area (picked ! j) < l"
    by blast
  from oth have "\<forall>j<length picked. j \<noteq> i \<longrightarrow> \<not> d < area (picked ! j)" by (simp add: not_less)
  with i have one: "length (filter (\<lambda>x. d < area x) picked) = 1"
    unfolding exactly_one_iff by blast
  have small: "\<forall>x\<in>set picked. area x \<le> d \<longrightarrow> area x < l"
  proof (intro ballI impI)
    fix x assume "x \<in> set picked" and le: "area x \<le> d"
    then obtain j where j: "j < length picked" "x = picked ! j" by (auto simp: in_set_conv_nth)
    with le i(2) have "j \<noteq> i" by auto
    with oth j show "area x < l" by blast
  qed
  from dd one small show "violatesDominant e picked" by (simp add: violatesDominant_Num [OF dl])
qed

lemma violated_rejected:
  "violatesDominant e picked \<Longrightarrow> tryCollect e picked s st = st \<and> tryCollect_v1 e picked s st = st"
  by (simp add: tryCollect_def tryCollect_v1_def)

lemma not_violated_passes:
  assumes "\<not> violatesDominant e picked"
  shows "tryCollect e picked s st =
           (if gt_num s (targetNum e) \<or> \<not> hasAtLeastOneFromB e picked \<or> 2 \<le> largeQCount e picked
            then st
            else pushTopK (numToString e) st \<lparr>sum_c = s, picked_c = picked\<rparr> (topK e))"
    and "tryCollect_v1 e picked s st =
           (if gt_num s (targetNum e) \<or> \<not> hasAtLeastOneFromB e picked
            then st
            else pushTopK (numToString e) st \<lparr>sum_c = s, picked_c = picked\<rparr> (topK e))"
  using assms by (simp_all add: tryCollect_def tryCollect_v1_def)



section \<open>Properties: the search as a whole\<close>

subsection \<open>Pruning\<close>




subsection \<open>Empty groups\<close>

text \<open>
  Claim C5: if one of the three groups A, B, C is empty after the filtering, the
  normalisation and (in the current version) the removal of the items above the target,
  \<open>bestTopKCombos\<close> returns the empty array, as a value and not as an error. The same holds
  for the earlier version and its groups.
\<close>

theorem empty_group_empty_result:
  "(byTypeFitting target (List.map_filter (toItem fA fB) cands) (js ''A'') = []
      \<or> byTypeFitting target (List.map_filter (toItem fA fB) cands) (js ''B'') = []
      \<or> byTypeFitting target (List.map_filter (toItem fA fB) cands) (js ''C'') = []
    \<longrightarrow> bestTopKCombos sh cands target fA fB k dd dm ol = Inr [])
   \<and> (byTypeSorted (List.map_filter (toItem_v1 fA fB) cands) (js ''A'') = []
      \<or> byTypeSorted (List.map_filter (toItem_v1 fA fB) cands) (js ''B'') = []
      \<or> byTypeSorted (List.map_filter (toItem_v1 fA fB) cands) (js ''C'') = []
    \<longrightarrow> bestTopKCombos_v1 sh cands target fA fB k dd dm ol = Inr [])"
  by (simp add: bestTopKCombos_def bestTopKCombos_v1_def Let_def)

theorem empty_group_empty_result_witness:
  "bestTopKCombos decimalString (take 2 scenarioA) (Num 40) FILE_A_NAME FILE_B_NAME (Num 5)
       False NaN NaN = Inr []
   \<and> bestTopKCombos_v1 decimalString (take 2 scenarioA) (Num 40) FILE_A_NAME FILE_B_NAME (Num 5)
       False NaN NaN = Inr []"
proof -
  have 1: "byTypeFitting (Num 40)
             (List.map_filter (toItem FILE_A_NAME FILE_B_NAME) (take 2 scenarioA)) (js ''B'') = []"
    by code_simp
  have 2: "byTypeSorted
             (List.map_filter (toItem_v1 FILE_A_NAME FILE_B_NAME) (take 2 scenarioA)) (js ''B'') = []"
    by code_simp
  from 1 2 show ?thesis
    using empty_group_empty_result [of "Num 40" FILE_A_NAME FILE_B_NAME "take 2 scenarioA"
        decimalString "Num 5" False NaN NaN]
    by blast
qed

subsection \<open>Invalid arguments\<close>

lemma checkItem_positive:
  "checkItem fA fB a t f c b r d = Some x \<Longrightarrow> 0 < area x"
  by (auto simp: checkItem_def split: jsnum.splits if_splits option.splits jsval.splits)

lemma toItem_positive: "toItem fA fB raw = Some x \<Longrightarrow> 0 < area x"
  by (cases raw) (auto dest: checkItem_positive)

lemma map_filter_positive:
  "x \<in> set (List.map_filter (toItem fA fB) cands) \<Longrightarrow> 0 < area x"
  by (auto simp: List.map_filter_def dest: toItem_positive)

lemma no_fit_below_zero:
  assumes "target = NaN \<or> target = NegInf \<or> (\<exists>t. target = Num t \<and> t \<le> 0)"
  shows "byTypeFitting target (List.map_filter (toItem fA fB) cands) t = []"
proof -
  have "\<And>x. x \<in> set (List.map_filter (toItem fA fB) cands) \<Longrightarrow> \<not> le_num (area x) target"
  proof -
    fix x assume "x \<in> set (List.map_filter (toItem fA fB) cands)"
    then have "0 < area x" by (rule map_filter_positive)
    with assms show "\<not> le_num (area x) target" by auto
  qed
  then show ?thesis
    by (auto simp: byTypeFitting_def byTypeSorted_def filter_empty_conv)
qed

lemma normTopK_below_1:
  assumes "k = NaN \<or> k = NegInf \<or> (\<exists>x. k = Num x \<and> x < 1)"
  shows "normTopK k = normTopK (Num 1)"
proof -
  have one: "normTopK (Num 1) = 1" by (simp add: one_enat_def)
  from assms consider "k = NaN" | "k = NegInf" | x where "k = Num x" "x < 1" by blast
  then show ?thesis
  proof cases
    case 3
    have "\<lfloor>x\<rfloor> \<le> 0" using 3(2) by linarith
    then have "nat (max 1 \<lfloor>x\<rfloor>) = 1" by simp
    then show ?thesis using 3(1) one by (simp add: one_enat_def)
  qed (simp_all add: one_enat_def)
qed

text \<open>
  Claim C6, as the code has it. The request handler answers a target that is not a
  finite positive number with status 400, whatever the task would compute, so nothing
  is computed. \<open>bestTopKCombos\<close> itself raises no error: a \<open>topK\<close> below 1 (or NaN, or
  \<open>-Infinity\<close>) is normalised to 1 and the search runs as for \<open>topK = 1\<close>; a target that is
  NaN, \<open>-Infinity\<close> or not positive gives the empty array; and every call returns an array.
\<close>

theorem invalid_input_handling:
  "(\<not> (\<exists>t. target = Num t \<and> 0 < t) \<longrightarrow> handleSolve target giftArea k runTask = Status400)
   \<and> (k = NaN \<or> k = NegInf \<or> (\<exists>x. k = Num x \<and> x < 1) \<longrightarrow>
        bestTopKCombos sh cands target fA fB k dd dm ol
          = bestTopKCombos sh cands target fA fB (Num 1) dd dm ol)
   \<and> (target = NaN \<or> target = NegInf \<or> (\<exists>t. target = Num t \<and> t \<le> 0) \<longrightarrow>
        bestTopKCombos sh cands target fA fB k dd dm ol = Inr [])
   \<and> (\<exists>rs. bestTopKCombos sh cands target fA fB k dd dm ol = Inr rs)"
proof (intro conjI impI)
  assume "\<not> (\<exists>t. target = Num t \<and> 0 < t)"
  then show "handleSolve target giftArea k runTask = Status400"
    by (cases target) (auto simp: handleSolve_def)
next
  assume "k = NaN \<or> k = NegInf \<or> (\<exists>x. k = Num x \<and> x < 1)"
  then have "normTopK k = normTopK (Num 1)" by (rule normTopK_below_1)
  then have "mkEnv sh target fA fB k dd dm ol = mkEnv sh target fA fB (Num 1) dd dm ol"
    by (simp add: mkEnv_def)
  then show "bestTopKCombos sh cands target fA fB k dd dm ol
          = bestTopKCombos sh cands target fA fB (Num 1) dd dm ol"
    by (simp add: bestTopKCombos_def)
next
  assume "target = NaN \<or> target = NegInf \<or> (\<exists>t. target = Num t \<and> t \<le> 0)"
  from no_fit_below_zero [OF this]
  show "bestTopKCombos sh cands target fA fB k dd dm ol = Inr []"
    by (simp add: bestTopKCombos_def Let_def)
next
  show "\<exists>rs. bestTopKCombos sh cands target fA fB k dd dm ol = Inr rs"
    by (rule bestTopKCombos_total)
qed

theorem invalid_input_handling_witness:
  "handleSolve (Num (- 5)) (Num 0) (Num 10) solveScenarioA = Status400
   \<and> handleSolve NaN (Num 0) (Num 10) solveScenarioA = Status400
   \<and> bestTopKCombos decimalString scenarioA (Num 40) FILE_A_NAME FILE_B_NAME (Num 0) False NaN NaN
       = bestTopKCombos decimalString scenarioA (Num 40) FILE_A_NAME FILE_B_NAME (Num 1) False NaN NaN
   \<and> bestTopKCombos decimalString scenarioA (Num (- 5)) FILE_A_NAME FILE_B_NAME (Num 10) False NaN NaN
       = Inr []"
proof -
  have a: "\<not> (\<exists>t. Num (- 5) = Num t \<and> 0 < t)" by simp
  have b: "\<not> (\<exists>t. NaN = Num t \<and> 0 < t)" by simp
  have c: "Num 0 = NaN \<or> Num 0 = NegInf \<or> (\<exists>x. Num 0 = Num x \<and> x < (1::real))" by simp
  have d: "Num (- 5) = NaN \<or> Num (- 5) = NegInf \<or> (\<exists>t. Num (- 5) = Num t \<and> t \<le> (0::real))" by simp
  from a invalid_input_handling [of "Num (- 5)" "Num 0" "Num 10" solveScenarioA]
  have 1: "handleSolve (Num (- 5)) (Num 0) (Num 10) solveScenarioA = Status400" by blast
  from b invalid_input_handling [of NaN "Num 0" "Num 10" solveScenarioA]
  have 2: "handleSolve NaN (Num 0) (Num 10) solveScenarioA = Status400" by blast
  from c invalid_input_handling [of "Num 40" _ "Num 0" _ decimalString scenarioA FILE_A_NAME FILE_B_NAME False NaN NaN]
  have 3: "bestTopKCombos decimalString scenarioA (Num 40) FILE_A_NAME FILE_B_NAME (Num 0) False NaN NaN
       = bestTopKCombos decimalString scenarioA (Num 40) FILE_A_NAME FILE_B_NAME (Num 1) False NaN NaN"
    by blast
  from d invalid_input_handling [of "Num (- 5)" _ "Num 10" _ decimalString scenarioA FILE_A_NAME FILE_B_NAME False NaN NaN]
  have 4: "bestTopKCombos decimalString scenarioA (Num (- 5)) FILE_A_NAME FILE_B_NAME (Num 10) False NaN NaN
       = Inr []"
    by blast
  from 1 2 3 4 show ?thesis by blast
qed

text \<open>
  Claim C6 as worded fails for \<open>topK < 1\<close>: a request with the target 40 and \<open>topK = 0\<close> on
  the pool of scenario A is answered with status 200 and the best result, not with an
  error.
\<close>

theorem topK_zero_counterexample:
  "handleSolve (Num 40) (Num 0) (Num 0) solveScenarioA = Status200 [result33]"
  by code_simp

subsection \<open>The anti-dominance rule\<close>

text \<open>
  Claim C7. The anti-dominance block discards a combination exactly when the rule is
  enabled, both thresholds are finite numbers, exactly one picked item has an area
  strictly above \<open>dominantMoreThan\<close> and every other picked item (whose area is then at
  most \<open>dominantMoreThan\<close>) has an area strictly below \<open>othersLessThan\<close>. A combination the
  block discards leaves the collector unchanged, in both versions of \<open>tryCollect\<close>. When
  the rule is disabled or a threshold is not a finite number the block discards nothing,
  and a combination the block does not discard is decided by the other checks alone.
\<close>

theorem antiDominance_rule:
  "(violatesDominant e picked \<longleftrightarrow>
      disallowDominant e
      \<and> (\<exists>d l. dominantMoreThan e = Num d \<and> othersLessThan e = Num l
           \<and> (\<exists>i<length picked. d < area (picked ! i)
                 \<and> (\<forall>j<length picked. j \<noteq> i \<longrightarrow>
                       area (picked ! j) \<le> d \<and> area (picked ! j) < l))))
   \<and> (violatesDominant e picked \<longrightarrow>
        tryCollect e picked s st = st \<and> tryCollect_v1 e picked s st = st)
   \<and> (\<not> disallowDominant e \<or> \<not> isFinite (dominantMoreThan e) \<or> \<not> isFinite (othersLessThan e)
        \<longrightarrow> \<not> violatesDominant e picked)
   \<and> (\<not> violatesDominant e picked \<longrightarrow>
        tryCollect e picked s st =
          (if gt_num s (targetNum e) \<or> \<not> hasAtLeastOneFromB e picked \<or> 2 \<le> largeQCount e picked
           then st
           else pushTopK (numToString e) st \<lparr>sum_c = s, picked_c = picked\<rparr> (topK e))
        \<and> tryCollect_v1 e picked s st =
          (if gt_num s (targetNum e) \<or> \<not> hasAtLeastOneFromB e picked
           then st
           else pushTopK (numToString e) st \<lparr>sum_c = s, picked_c = picked\<rparr> (topK e)))"
proof (intro conjI)
  show "violatesDominant e picked \<longleftrightarrow>
      disallowDominant e
      \<and> (\<exists>d l. dominantMoreThan e = Num d \<and> othersLessThan e = Num l
           \<and> (\<exists>i<length picked. d < area (picked ! i)
                 \<and> (\<forall>j<length picked. j \<noteq> i \<longrightarrow>
                       area (picked ! j) \<le> d \<and> area (picked ! j) < l)))"
    by (rule violatesDominant_iff)
  show "violatesDominant e picked \<longrightarrow>
        tryCollect e picked s st = st \<and> tryCollect_v1 e picked s st = st"
    using violated_rejected by blast
  show "\<not> disallowDominant e \<or> \<not> isFinite (dominantMoreThan e) \<or> \<not> isFinite (othersLessThan e)
        \<longrightarrow> \<not> violatesDominant e picked"
    using violatesDominant_not_finite by blast
  show "\<not> violatesDominant e picked \<longrightarrow>
        tryCollect e picked s st =
          (if gt_num s (targetNum e) \<or> \<not> hasAtLeastOneFromB e picked \<or> 2 \<le> largeQCount e picked
           then st
           else pushTopK (numToString e) st \<lparr>sum_c = s, picked_c = picked\<rparr> (topK e))
        \<and> tryCollect_v1 e picked s st =
          (if gt_num s (targetNum e) \<or> \<not> hasAtLeastOneFromB e picked
           then st
           else pushTopK (numToString e) st \<lparr>sum_c = s, picked_c = picked\<rparr> (topK e))"
    using not_violated_passes by blast
qed

text \<open>
  Scenario D: with the thresholds 100 and 70 the combination of the sizes 120, 30 and 20
  is discarded when the rule is enabled, and collected when it is disabled.
\<close>

theorem antiDominance_rule_witness:
  "violatesDominant (envD True) pickedD
   \<and> tryCollect (envD True) pickedD 170 ([], {}) = ([], {})
   \<and> \<not> violatesDominant (envD False) pickedD
   \<and> fst (tryCollect (envD False) pickedD 170 ([], {})) = [\<lparr>sum_c = 170, picked_c = pickedD\<rparr>]"
proof -
  have len: "length pickedD = 3" by (simp add: pickedD_def)
  have ar: "area (pickedD ! 0) = 120" "area (pickedD ! 1) = 30" "area (pickedD ! 2) = 20"
    by (simp_all add: pickedD_def item3_def)
  have others: "\<forall>j<length pickedD. j \<noteq> 0 \<longrightarrow> area (pickedD ! j) \<le> 100 \<and> area (pickedD ! j) < 70"
  proof (intro allI impI)
    fix j assume "j < length pickedD" "j \<noteq> 0"
    then have "j = 1 \<or> j = 2" using len by auto
    then show "area (pickedD ! j) \<le> 100 \<and> area (pickedD ! j) < 70" using ar by auto
  qed
  have cond: "disallowDominant (envD True)
      \<and> (\<exists>d l. dominantMoreThan (envD True) = Num d \<and> othersLessThan (envD True) = Num l
           \<and> (\<exists>i<length pickedD. d < area (pickedD ! i)
                 \<and> (\<forall>j<length pickedD. j \<noteq> i \<longrightarrow>
                       area (pickedD ! j) \<le> d \<and> area (pickedD ! j) < l)))"
  proof -
    have 1: "disallowDominant (envD True)" by (simp add: envD_def mkEnv_def)
    have 2: "dominantMoreThan (envD True) = Num 100" by (simp add: envD_def mkEnv_def)
    have 3: "othersLessThan (envD True) = Num 70" by (simp add: envD_def mkEnv_def)
    have 4: "0 < length pickedD" using len by simp
    have 5: "100 < area (pickedD ! 0)" using ar by simp
    from 4 5 others have "\<exists>i<length pickedD. 100 < area (pickedD ! i)
                 \<and> (\<forall>j<length pickedD. j \<noteq> i \<longrightarrow>
                       area (pickedD ! j) \<le> 100 \<and> area (pickedD ! j) < 70)" by blast
    with 1 2 3 show ?thesis by blast
  qed
  note inst1 = antiDominance_rule [of "envD True" pickedD 170 "([], {})"]
  from inst1 cond have v: "violatesDominant (envD True) pickedD" by blast
  with inst1 have r: "tryCollect (envD True) pickedD 170 ([], {}) = ([], {})" by blast
  note inst2 = antiDominance_rule [of "envD False" pickedD 170 "([], {})"]
  have "\<not> disallowDominant (envD False)" by (simp add: envD_def mkEnv_def)
  with inst2 have nv: "\<not> violatesDominant (envD False) pickedD" by blast
  with inst2 have "tryCollect (envD False) pickedD 170 ([], {}) =
          (if gt_num 170 (targetNum (envD False)) \<or> \<not> hasAtLeastOneFromB (envD False) pickedD
                \<or> 2 \<le> largeQCount (envD False) pickedD
           then ([], {})
           else pushTopK (numToString (envD False)) ([], {}) \<lparr>sum_c = 170, picked_c = pickedD\<rparr>
                  (topK (envD False)))" by blast
  moreover have "\<not> gt_num 170 (targetNum (envD False))" by (simp add: envD_def mkEnv_def)
  moreover have "hasAtLeastOneFromB (envD False) pickedD"
    by (simp add: envD_def mkEnv_def hasAtLeastOneFromB_def pickedD_def item3_def)
  moreover have "largeQCount (envD False) pickedD = 0"
    by (simp add: envD_def mkEnv_def largeQCount_def pickedD_def item3_def FILE_A_NAME_def FILE_B_NAME_def)
  moreover have "topK (envD False) = enat 5"
    by (simp add: envD_def mkEnv_def)
  ultimately have "tryCollect (envD False) pickedD 170 ([], {}) =
      pushTopK (numToString (envD False)) ([], {}) \<lparr>sum_c = 170, picked_c = pickedD\<rparr> (enat 5)"
    by simp
  then have c: "fst (tryCollect (envD False) pickedD 170 ([], {})) = [\<lparr>sum_c = 170, picked_c = pickedD\<rparr>]"
    by (simp add: pushTopK_unfold)
  from v r nv c show ?thesis by blast
qed

subsection \<open>The cap on large items of file A\<close>



subsection \<open>The budget and the rounding of the output\<close>

text \<open>
  The part of claim C2 that does hold: the sum of every collected combination, before
  the rounding of the output, is not above the target.
\<close>

lemma results_within_target:
  assumes "bestTopKCombos sh cands target fA fB k dd dm ol = Inr rs"
  shows "\<exists>tpl. rs = map (formatResult (mkEnv sh target fA fB k dd dm ol)) tpl
           \<and> (\<forall>c\<in>set tpl. \<not> gt_num (sum_c c) target)"
proof -
  from bestTopKCombos_results [OF assms] obtain tpl where
    rs: "rs = map (formatResult (mkEnv sh target fA fB k dd dm ol)) tpl"
    and acc: "\<forall>c\<in>set tpl. accepted (mkEnv sh target fA fB k dd dm ol) c" by blast
  have "targetNum (mkEnv sh target fA fB k dd dm ol) = target" by (simp add: mkEnv_def)
  with acc have "\<forall>c\<in>set tpl. \<not> gt_num (sum_c c) target" by (simp add: accepted_def)
  with rs show ?thesis by blast
qed

text \<open>
  Claim C2 (every result has a sum of at most the target and a reported gap of at least
  zero, both rounded to 6 decimal places) does not hold of the code at this input. The
  only combination of \<open>halfwayPool\<close> has the sum 3.0078125, equal to the target, and is
  accepted. The rounding of the output rounds the sum up to 3.007813, above the target,
  and the gap computed from the rounded sum is reported as -0.000001.
\<close>

theorem halfway_sum_negative_gap:
  "bestTopKCombos decimalString halfwayPool (Num 3.0078125) FILE_A_NAME FILE_B_NAME (Num 5)
       False NaN NaN
     = Inr [\<lparr>result = [(1, js ''A'' @ xianfang), (1, js ''B'' @ xianfang),
                        (1.0078125, js ''C'' @ xianfang)],
             duihuanMianji = 3.007813, mubiaoMianji = Num 3.0078125,
             langfeiMianji = Num (- 0.000001)\<rparr>]"
  by code_simp

subsection \<open>Scenario A\<close>

lemma scenarioA_value:
  "bestTopKCombos decimalString scenarioA (Num 40) FILE_A_NAME FILE_B_NAME (Num 5) False NaN NaN
     = Inr [result33, result23]"
  by code_simp

lemma scenarioA_v1_value:
  "bestTopKCombos_v1 decimalString scenarioA (Num 40) FILE_A_NAME FILE_B_NAME (Num 5) False NaN NaN
     = Inr [result33, result23]"
  by code_simp

text \<open>
  Claim C8, as the code has it: on the pool of scenario A with the target 40 and
  \<open>topK = 5\<close> the search returns exactly two results, the combination of the sizes 20, 5
  and 8 with the sum 33 and the gap 7, then the combination of the sizes 10, 5 and 8 with
  the sum 23 and the gap 17. Both versions return the same.
\<close>

theorem scenarioA_two_results:
  "bestTopKCombos decimalString scenarioA (Num 40) FILE_A_NAME FILE_B_NAME (Num 5) False NaN NaN
     = Inr [result33, result23]
   \<and> bestTopKCombos_v1 decimalString scenarioA (Num 40) FILE_A_NAME FILE_B_NAME (Num 5) False NaN NaN
     = Inr [result33, result23]"
  using scenarioA_value scenarioA_v1_value by simp

text \<open>
  Claim C8 as worded fails: the result is not the single combination with the sum 33.
\<close>

theorem scenarioA_single_counterexample:
  "bestTopKCombos decimalString scenarioA (Num 40) FILE_A_NAME FILE_B_NAME (Num 5) False NaN NaN
     \<noteq> Inr [result33]"
  unfolding scenarioA_value by simp

end
